theory Spec2Isabelle
  imports Main "HOL-Library.Word"
begin

section \<open>btoa: binary file to assembly code converter\<close>

text \<open>
  A shallow embedding of \<^verbatim>\<open>main.c\<close>. The C strings are \<open>string\<close>s (without the
  terminating NUL), the two \<^verbatim>\<open>FILE *\<close> streams are explicit values that every I/O call
  takes and returns, and the counter of converted bytes is a machine word of the width
  of \<^verbatim>\<open>size_t\<close>. That width is fixed by the platform's headers, not by this source
  file, so it is the type parameter \<open>'w\<close> of the model (64 on LP64, 32 on ILP32).
\<close>

subsection \<open>Constants of the source\<close>

definition PROG_FILENAME_IDX :: nat where
  "PROG_FILENAME_IDX = 0"

definition ARCH_NAME_IDX :: nat where
  "ARCH_NAME_IDX = 1"

definition IN_FILENAME_IDX :: nat where
  "IN_FILENAME_IDX = 2"

definition OUT_FILENAME_IDX :: nat where
  "OUT_FILENAME_IDX = 3"

definition ELEMS_PER_LINE :: nat where
  "ELEMS_PER_LINE = 8"

text \<open>The two control characters of the format strings: \<^verbatim>\<open>\n\<close> and \<^verbatim>\<open>\t\<close>.\<close>

definition nl :: string where
  "nl = [CHR 0x0A]"

definition tab :: string where
  "tab = [CHR 0x09]"

subsection \<open>The table of assembly dialects\<close>

record lang_spec =
  name :: string
  def :: string
  diff :: string
  glob_pre :: string
  glob_post :: string

text \<open>
  The array \<^verbatim>\<open>lang_specs\<close>. Its last element \<^verbatim>\<open>{NULL}\<close> is the sentinel that ends
  \<^verbatim>\<open>lang_specs_foreach\<close>; in the model the end of the list plays that part.
\<close>

definition lang_specs :: "lang_spec list" where
  "lang_specs =
    [\<lparr>name = ''nasm'', def = ''db'', diff = ''dd $-'',
      glob_pre = ''[GLOBAL '', glob_post = '']''\<rparr>,
     \<lparr>name = ''fasm'', def = ''db'', diff = ''dd $-'',
      glob_pre = ''global '', glob_post = ''''\<rparr>,
     \<lparr>name = ''as'', def = ''.byte'', diff = ''.long .-'',
      glob_pre = ''.globl '', glob_post = ''''\<rparr>]"

text \<open>
  \<^verbatim>\<open>lang_specs_foreach (lang) { if (0 == strcmp(lang->name, name)) return lang; }\<close>
  and \<^verbatim>\<open>return NULL\<close> after the loop. \<^verbatim>\<open>strcmp\<close> returns 0 exactly on equal strings.
\<close>

fun lang_specs_foreach :: "lang_spec list \<Rightarrow> string \<Rightarrow> lang_spec option" where
  "lang_specs_foreach [] nm = None"
| "lang_specs_foreach (lang # langs) nm =
     (if name lang = nm then Some lang else lang_specs_foreach langs nm)"

definition lookup_lang_spec :: "string \<Rightarrow> lang_spec option" where
  "lookup_lang_spec nm = lang_specs_foreach lang_specs nm"

subsection \<open>Replacing a character in a string\<close>

text \<open>
  \<^verbatim>\<open>str_repl_char\<close> overwrites the string in place and returns the number of
  replacements; the model returns the new string with that number.
\<close>

fun str_repl_char :: "string \<Rightarrow> char \<Rightarrow> char \<Rightarrow> string \<times> int" where
  "str_repl_char [] old new = ([], 0)"
| "str_repl_char (c # str) old new =
     (case str_repl_char str old new of
        (str', ret) \<Rightarrow> if c = old then (new # str', ret + 1) else (c # str', ret))"

subsection \<open>The streams\<close>

type_synonym byte = "8 word"

text \<open>
  The input stream is the list of what its successive one-byte \<^verbatim>\<open>fread\<close> calls meet:
  a byte, or a read error. At the end of the list the stream is at end-of-file, and stays
  there. \<^verbatim>\<open>fread\<close> returns a short count only at end-of-file or on an error, so after
  \<^verbatim>\<open>!rwcount\<close> one of \<^verbatim>\<open>feof\<close> and \<^verbatim>\<open>ferror\<close> holds.
\<close>

datatype read_event = Deliver byte | Fail

text \<open>
  The output stream: the characters written so far, the number of \<^verbatim>\<open>fprintf\<close> calls
  made on it, and the set of call numbers at which the device refuses the write. A
  refused call returns a negative value and writes nothing; every other call appends its
  text and returns the number of characters.
\<close>

record out_file =
  written :: string
  ncalls :: nat
  fails :: "nat set"

definition fprintf :: "out_file \<Rightarrow> string \<Rightarrow> int \<times> out_file" where
  "fprintf out s =
     (if ncalls out \<in> fails out
      then (- 1, out\<lparr>ncalls := Suc (ncalls out)\<rparr>)
      else (int (length s), out\<lparr>written := written out @ s, ncalls := Suc (ncalls out)\<rparr>))"

text \<open>
  The conversion \<^verbatim>\<open>%x\<close> of \<^verbatim>\<open>printf\<close>: unsigned hexadecimal with the letters
  \<^verbatim>\<open>abcdef\<close> and as many digits as the value needs, at least one.
\<close>

definition hex_digit :: "nat \<Rightarrow> char" where
  "hex_digit d = ''0123456789abcdef'' ! d"

fun fmt_x :: "nat \<Rightarrow> string" where
  "fmt_x n = (if n < 16 then [hex_digit n] else fmt_x (n div 16) @ [hex_digit (n mod 16)])"

declare fmt_x.simps [simp del]

subsection \<open>convert\<close>

text \<open>
  The body of the \<^verbatim>\<open>for (;;)\<close> loop of \<^verbatim>\<open>convert\<close>, one iteration for each
  \<^verbatim>\<open>fread\<close>. The first component of the result is 0 after \<^verbatim>\<open>break\<close>, \<open>-1\<close>
  after \<^verbatim>\<open>goto in_err\<close> and \<open>-2\<close> after \<^verbatim>\<open>goto out_err\<close>; the others are
  \<^verbatim>\<open>*count\<close> and the two streams as the loop leaves them.
\<close>

fun convert_loop ::
  "read_event list \<Rightarrow> out_file \<Rightarrow> lang_spec \<Rightarrow> 'w::len word
     \<Rightarrow> int \<times> 'w word \<times> read_event list \<times> out_file" where
  "convert_loop [] out lang count = (0, count, [], out)"
| "convert_loop (Fail # inp) out lang count = (- 1, count, inp, out)"
| "convert_loop (Deliver byte # inp) out lang count =
     (case fprintf out
             (if count \<noteq> 0 \<and> count mod of_nat ELEMS_PER_LINE \<noteq> 0
              then '','' @ tab else nl @ def lang @ tab) of
        (ret, out1) \<Rightarrow>
          if ret < 0 then (- 2, count, inp, out1)
          else (case fprintf out1 (''0x'' @ fmt_x (unat byte)) of
                  (ret, out2) \<Rightarrow>
                    if ret < 0 then (- 2, count, inp, out2)
                    else convert_loop inp out2 lang (count + 1)))"

text \<open>
  \<^verbatim>\<open>convert(in, out, lang, &count)\<close>. The file name \<open>fname\<close> is
  \<^verbatim>\<open>args[IN_FILENAME_IDX]\<close>, which the source reads from the global \<^verbatim>\<open>args\<close>.
  The result is the return value, \<^verbatim>\<open>*count\<close> and the two streams.
\<close>

definition convert ::
  "read_event list \<Rightarrow> out_file \<Rightarrow> lang_spec \<Rightarrow> string
     \<Rightarrow> int \<times> 'w::len word \<times> read_event list \<times> out_file" where
  "convert inp out lang fname =
     (case fprintf out (glob_pre lang @ fname @ ''_file'' @ glob_post lang @ nl) of
        (ret, out1) \<Rightarrow>
          if ret < 0 then (- 2, 0, inp, out1)
          else (case fprintf out1 (fname @ ''_file:'' @ nl) of
            (ret, out2) \<Rightarrow>
              if ret < 0 then (- 2, 0, inp, out2)
              else (case convert_loop inp out2 lang 0 of
                (st, count, inp', out3) \<Rightarrow>
                  if st \<noteq> 0 then (st, count, inp', out3)
                  else (case fprintf out3
                               (nl @ nl @ glob_pre lang @ fname @ ''_file_size''
                                  @ glob_post lang @ nl) of
                    (ret, out4) \<Rightarrow>
                      if ret < 0 then (- 2, count, inp', out4)
                      else (case fprintf out4
                                   (fname @ ''_file_size: '' @ diff lang @ fname
                                      @ ''_file'' @ nl) of
                        (ret, out5) \<Rightarrow>
                          if ret < 0 then (- 2, count, inp', out5)
                          else (0, count, inp', out5))))))"

subsection \<open>main and its helpers\<close>

text \<open>
  The values the two \<^verbatim>\<open>FILE *\<close> variables of \<^verbatim>\<open>main\<close> take: the null pointer,
  \<^verbatim>\<open>stdout\<close>, and the streams the two \<^verbatim>\<open>fopen\<close> calls return.
\<close>

datatype file_ptr = NULL | STDOUT | IN_FILE | OUT_FILE

text \<open>
  What a run does to its environment, in order: text printed on \<^verbatim>\<open>stderr\<close>, the
  final message with the byte count (of type \<open>'c\<close>), \<^verbatim>\<open>fopen\<close> (path, mode, pointer returned),
  \<^verbatim>\<open>fclose\<close>, and the in-place rewriting of an element of \<^verbatim>\<open>argv\<close> by
  \<^verbatim>\<open>str_repl_char\<close> (index, old and new character).
\<close>

datatype 'c event =
    Stderr string
  | Report 'c
  | Fopen string string file_ptr
  | Fclose file_ptr
  | Repl nat char char

text \<open>
  A run ends in \<^verbatim>\<open>exit\<close> or \<^verbatim>\<open>return\<close> with a status, or it reaches a call whose
  behaviour the C standard leaves undefined.
\<close>

datatype ending = Exit int | Undefined_behaviour

record 'c run =
  log :: "'c event list"
  status :: ending
  final_out :: "out_file option"

text \<open>
  The files of the environment: what \<^verbatim>\<open>fopen(path, "r")\<close> finds (the reads of the
  stream it returns), which paths \<^verbatim>\<open>fopen(path, "w")\<close> can create (with the write calls
  the device will refuse), and the write calls \<^verbatim>\<open>stdout\<close> will refuse. A path that is
  not listed cannot be opened.
\<close>

record world =
  in_files :: "(string \<times> read_event list) list"
  out_files :: "(string \<times> nat set) list"
  stdout_fails :: "nat set"

definition fopen_r :: "world \<Rightarrow> string \<Rightarrow> read_event list option" where
  "fopen_r w path = map_of (in_files w) path"

definition fopen_w :: "world \<Rightarrow> string \<Rightarrow> out_file option" where
  "fopen_w w path =
     (case map_of (out_files w) path of
        None \<Rightarrow> None
      | Some fs \<Rightarrow> Some \<lparr>written = [], ncalls = 0, fails = fs\<rparr>)"

definition stdout_stream :: "world \<Rightarrow> out_file" where
  "stdout_stream w = \<lparr>written = [], ncalls = 0, fails = stdout_fails w\<rparr>"

definition print_langs :: "'c event list" where
  "print_langs = map (\<lambda>lang. Stderr ('' '' @ name lang)) lang_specs @ [Stderr nl]"

definition usage :: "string \<Rightarrow> 'c event list" where
  "usage progname =
     [Stderr (''Format: '' @ progname @
        '' <lang> <binary file name> [<assembly file name>]'' @ nl),
      Stderr ''<lang> can be one of:''] @ print_langs @ [Stderr nl]"

text \<open>\<^verbatim>\<open>panic\<close> prints the message and calls \<^verbatim>\<open>exit(1)\<close>.\<close>

definition panic :: "'c event list \<Rightarrow> out_file option \<Rightarrow> string \<Rightarrow> 'c run" where
  "panic lg outf msg =
     \<lparr>log = lg @ [Stderr (''Error: '' @ msg @ nl)], status = Exit 1, final_out = outf\<rparr>"

text \<open>
  \<^verbatim>\<open>fclose\<close> takes a pointer to a stream; on the null pointer its behaviour is
  undefined (\<open>None\<close>).
\<close>

definition fclose :: "file_ptr \<Rightarrow> 'c event list \<Rightarrow> 'c event list option" where
  "fclose p lg = (if p = NULL then None else Some (lg @ [Fclose p]))"

definition cleanup :: "file_ptr \<Rightarrow> file_ptr \<Rightarrow> 'c event list \<Rightarrow> 'c event list option" where
  "cleanup inp out lg =
     (case (if STDOUT \<noteq> out then fclose out lg else Some lg) of
        None \<Rightarrow> None
      | Some lg1 \<Rightarrow> if inp \<noteq> NULL then fclose inp lg1 else Some lg1)"

text \<open>\<^verbatim>\<open>cleanup(in, out); panic(msg);\<close>\<close>

definition cleanup_panic ::
  "file_ptr \<Rightarrow> file_ptr \<Rightarrow> 'c event list \<Rightarrow> out_file option \<Rightarrow> string \<Rightarrow> 'c run" where
  "cleanup_panic inp out lg outf msg =
     (case cleanup inp out lg of
        None \<Rightarrow> \<lparr>log = lg, status = Undefined_behaviour, final_out = outf\<rparr>
      | Some lg1 \<Rightarrow> panic lg1 outf msg)"

text \<open>
  The two statements of \<^verbatim>\<open>main\<close> that rewrite \<^verbatim>\<open>argv[IN_FILENAME_IDX]\<close> in place,
  first every \<^verbatim>\<open>.\<close> and then every \<^verbatim>\<open>-\<close>.
\<close>

definition repl_in_filename :: "string list \<Rightarrow> string list" where
  "repl_in_filename argv =
     (let argv1 = argv[IN_FILENAME_IDX :=
                    fst (str_repl_char (argv ! IN_FILENAME_IDX) (CHR ''.'') (CHR ''_''))]
      in argv1[IN_FILENAME_IDX :=
           fst (str_repl_char (argv1 ! IN_FILENAME_IDX) (CHR ''-'') (CHR ''_''))])"

text \<open>
  \<^verbatim>\<open>main(argc, argv)\<close>, with \<^verbatim>\<open>argc = length argv\<close>. With no argument at all
  \<^verbatim>\<open>argv[0]\<close> is the null pointer, which \<^verbatim>\<open>usage\<close> hands to \<^verbatim>\<open>%s\<close>. The global
  \<^verbatim>\<open>args\<close> is an alias of \<^verbatim>\<open>argv\<close>, so \<^verbatim>\<open>convert\<close> reads the rewritten name.
\<close>

definition main :: "world \<Rightarrow> string list \<Rightarrow> ('w::len word) run" where
  "main w argv =
     (let argc = length argv;
          lg0 = [Stderr (''Binary file to assembly language converter.'' @ nl @ nl)]
      in
      if argc < 3 \<or> argc > 4 then
        (if argc = 0 then \<lparr>log = lg0, status = Undefined_behaviour, final_out = None\<rparr>
         else panic (lg0 @ usage (argv ! PROG_FILENAME_IDX)) None
                ''At least two parameters are necessary.'')
      else
        (case lookup_lang_spec (argv ! ARCH_NAME_IDX) of
           None \<Rightarrow> panic lg0 None ''Non-supported assembly syntax.''
         | Some lang \<Rightarrow>
             (case fopen_r w (argv ! IN_FILENAME_IDX) of
                None \<Rightarrow>
                  panic (lg0 @ [Fopen (argv ! IN_FILENAME_IDX) ''r'' NULL]) None
                    ''Unable to open the input file.''
              | Some inp \<Rightarrow>
                  (let lg1 = lg0 @ [Fopen (argv ! IN_FILENAME_IDX) ''r'' IN_FILE] in
                   case (if 4 = argc
                         then (case fopen_w w (argv ! OUT_FILENAME_IDX) of
                                 None \<Rightarrow>
                                   (NULL, None,
                                    lg1 @ [Fopen (argv ! OUT_FILENAME_IDX) ''w'' NULL])
                               | Some f \<Rightarrow>
                                   (OUT_FILE, Some f,
                                    lg1 @ [Fopen (argv ! OUT_FILENAME_IDX) ''w'' OUT_FILE]))
                         else (STDOUT, Some (stdout_stream w), lg1)) of
                     (out, None, lg2) \<Rightarrow>
                       cleanup_panic IN_FILE out lg2 None ''Unable to create a new file.''
                   | (out, Some outf, lg2) \<Rightarrow>
                       (let argv' = repl_in_filename argv;
                            lg3 = lg2 @ [Repl IN_FILENAME_IDX (CHR ''.'') (CHR ''_''),
                                         Repl IN_FILENAME_IDX (CHR ''-'') (CHR ''_'')]
                        in
                        case convert inp outf lang (argv' ! IN_FILENAME_IDX) of
                          (ret, count, inp', outf') \<Rightarrow>
                            if ret = - 1 then
                              cleanup_panic IN_FILE out lg3 (Some outf')
                                ''Unable to read the input file.''
                            else if ret = - 2 then
                              cleanup_panic IN_FILE out lg3 (Some outf')
                                (''Unable to write the output file. '' @
                                 ''WARNING: Output data is inconsistent!'')
                            else
                              (case cleanup IN_FILE out (lg3 @ [Report count]) of
                                 None \<Rightarrow>
                                   \<lparr>log = lg3 @ [Report count],
                                    status = Undefined_behaviour, final_out = Some outf'\<rparr>
                               | Some lg4 \<Rightarrow>
                                   \<lparr>log = lg4, status = Exit 0, final_out = Some outf'\<rparr>))))))"

subsection \<open>The notions of the specification\<close>

text \<open>
  The definitions of this subsection are not translations of the source: they say, in the
  words of the specification, what the theorems below compare the source with.
\<close>

text \<open>
  The text of the byte literals as the specification's rule gives it, byte by byte: at
  running count \<open>c\<close> a byte is preceded by a newline, the byte directive and a tab when
  \<open>c = 0\<close> or \<open>c mod 8 = 0\<close>, and by a comma and a tab otherwise.
\<close>

definition separator :: "string \<Rightarrow> nat \<Rightarrow> string" where
  "separator d c = (if c = 0 \<or> c mod 8 = 0 then nl @ d @ tab else '','' @ tab)"

fun byte_lines :: "string \<Rightarrow> nat \<Rightarrow> byte list \<Rightarrow> string" where
  "byte_lines d c [] = []"
| "byte_lines d c (b # bs) =
     separator d c @ ''0x'' @ fmt_x (unat b) @ byte_lines d (Suc c) bs"

text \<open>
  The four lines around the byte literals: the export directive and the label of the
  data, and the export directive and the label of the size with its expression.
\<close>

definition export_data_line :: "lang_spec \<Rightarrow> string \<Rightarrow> string" where
  "export_data_line lang ident = glob_pre lang @ ident @ ''_file'' @ glob_post lang"

definition data_label_line :: "string \<Rightarrow> string" where
  "data_label_line ident = ident @ ''_file:''"

definition export_size_line :: "lang_spec \<Rightarrow> string \<Rightarrow> string" where
  "export_size_line lang ident = glob_pre lang @ ident @ ''_file_size'' @ glob_post lang"

definition size_label_line :: "lang_spec \<Rightarrow> string \<Rightarrow> string" where
  "size_label_line lang ident = ident @ ''_file_size: '' @ diff lang @ ident @ ''_file''"

definition header :: "lang_spec \<Rightarrow> string \<Rightarrow> string" where
  "header lang ident = export_data_line lang ident @ nl @ data_label_line ident @ nl"

definition footer :: "lang_spec \<Rightarrow> string \<Rightarrow> string" where
  "footer lang ident =
     nl @ nl @ export_size_line lang ident @ nl @ size_label_line lang ident @ nl"

text \<open>The bytes in groups of 8, the last group with what is left (at least one byte).\<close>

function group8 :: "'a list \<Rightarrow> 'a list list" where
  "group8 xs = (if xs = [] then [] else take 8 xs # group8 (drop 8 xs))"
  by pat_completeness auto
termination
  by (relation "measure length") auto

declare group8.simps [simp del]

fun comma_sep :: "string list \<Rightarrow> string" where
  "comma_sep [] = []"
| "comma_sep [x] = x"
| "comma_sep (x # y # ys) = x @ '','' @ tab @ comma_sep (y # ys)"

text \<open>One line of byte literals: the line break, the directive, a tab, the literals.\<close>

definition line_of :: "string \<Rightarrow> byte list \<Rightarrow> string" where
  "line_of d g = nl @ d @ tab @ comma_sep (map (\<lambda>b. ''0x'' @ fmt_x (unat b)) g)"

text \<open>The value of a string of lowercase hexadecimal digits.\<close>

definition digit_val :: "char \<Rightarrow> nat" where
  "digit_val c =
     (let n = (of_char c :: nat) in if 48 \<le> n \<and> n \<le> 57 then n - 48 else n - 87)"

fun hex_val :: "string \<Rightarrow> nat" where
  "hex_val ds = foldl (\<lambda>v c. 16 * v + digit_val c) 0 ds"

text \<open>The lines of a text, and the lines that are not blank.\<close>

fun split_lines :: "string \<Rightarrow> string list" where
  "split_lines [] = [[]]"
| "split_lines (c # cs) =
     (if c = CHR 0x0A then [] # split_lines cs
      else (case split_lines cs of l # ls \<Rightarrow> (c # l) # ls | [] \<Rightarrow> [[c]]))"

definition blank :: "string \<Rightarrow> bool" where
  "blank l = list_all (\<lambda>c. c = CHR '' '' \<or> c = CHR 0x09) l"

definition non_blank_lines :: "string \<Rightarrow> string list" where
  "non_blank_lines s = filter (\<lambda>l. \<not> blank l) (split_lines s)"

text \<open>
  The base name of a path (what follows its last \<^verbatim>\<open>/\<close>) and the identifier the
  specification derives from it.
\<close>

definition spec_base_name :: "string \<Rightarrow> string" where
  "spec_base_name path = rev (takeWhile (\<lambda>c. c \<noteq> CHR ''/'') (rev path))"

definition spec_identifier :: "string \<Rightarrow> string" where
  "spec_identifier path =
     map (\<lambda>c. if c = CHR ''.'' \<or> c = CHR ''-'' then CHR ''_'' else c) (spec_base_name path)"

text \<open>
  The events of a run that open a file or rewrite an argument, in the order of the run.
\<close>

fun is_file_event :: "'c event \<Rightarrow> bool" where
  "is_file_event (Fopen path mode p) = True"
| "is_file_event (Repl i old new) = True"
| "is_file_event e = False"

definition file_events :: "'c event list \<Rightarrow> 'c event list" where
  "file_events lg = filter is_file_event lg"

text \<open>An output stream on which the next \<open>m\<close> calls of \<^verbatim>\<open>fprintf\<close> succeed.\<close>

definition clear :: "out_file \<Rightarrow> nat \<Rightarrow> bool" where
  "clear out m = (\<forall>i < m. ncalls out + i \<notin> fails out)"

section \<open>Properties\<close>

subsection \<open>The dialect table\<close>

lemma lang_specs_foreach_find:
  "lang_specs_foreach ls nm = find (\<lambda>lang. name lang = nm) ls"
  by (induction ls) auto

text \<open>
  C4. The table holds exactly the profiles nasm, fasm and as, in this order and with these
  directives. \<open>lookup_lang_spec\<close> returns the first entry whose name equals the argument
  character by character, and \<open>None\<close> (the source's \<^verbatim>\<open>NULL\<close>) for every other name;
  the comparison is case sensitive, so \<^verbatim>\<open>NASM\<close> is not found.
\<close>

theorem lookup_lang_spec_table:
  "lang_specs =
     [\<lparr>name = ''nasm'', def = ''db'', diff = ''dd $-'',
       glob_pre = ''[GLOBAL '', glob_post = '']''\<rparr>,
      \<lparr>name = ''fasm'', def = ''db'', diff = ''dd $-'',
       glob_pre = ''global '', glob_post = ''''\<rparr>,
      \<lparr>name = ''as'', def = ''.byte'', diff = ''.long .-'',
       glob_pre = ''.globl '', glob_post = ''''\<rparr>]
   \<and> lookup_lang_spec nm = find (\<lambda>lang. name lang = nm) lang_specs
   \<and> lookup_lang_spec nm =
       (if nm = ''nasm'' then Some (lang_specs ! 0)
        else if nm = ''fasm'' then Some (lang_specs ! 1)
        else if nm = ''as'' then Some (lang_specs ! 2)
        else None)
   \<and> lookup_lang_spec ''NASM'' = None"
  by (simp add: lookup_lang_spec_def lang_specs_foreach_find) (simp add: lang_specs_def)

subsection \<open>The byte literal\<close>

lemma below_16: "(d :: nat) < 16 \<Longrightarrow> d \<in> {0, 1, 2, 3, 4, 5, 6, 7, 8, 9, 10, 11, 12, 13, 14, 15}"
  by simp arith

lemma hex_digit_val: "d < 16 \<Longrightarrow> digit_val (hex_digit d) = d"
  by (drule below_16) (auto simp: hex_digit_def digit_val_def)

lemma hex_digit_mem: "d < 16 \<Longrightarrow> hex_digit d \<in> set ''0123456789abcdef''"
  unfolding hex_digit_def by (rule nth_mem) simp

lemma hex_digit_zero: "d < 16 \<Longrightarrow> (hex_digit d = CHR ''0'') = (d = 0)"
  by (drule below_16) (auto simp: hex_digit_def)

lemma set_fmt_x: "set (fmt_x n) \<subseteq> set ''0123456789abcdef''"
proof (induction n rule: fmt_x.induct)
  case (1 n)
  show ?case
  proof (cases "n < 16")
    case True
    then show ?thesis using hex_digit_mem [of n] by (subst fmt_x.simps) simp
  next
    case False
    have "hex_digit (n mod 16) \<in> set ''0123456789abcdef''"
      by (rule hex_digit_mem) simp
    with False "1.IH" show ?thesis by (subst fmt_x.simps) simp
  qed
qed

lemma hex_val_snoc: "hex_val (ds @ [c]) = 16 * hex_val ds + digit_val c"
  by simp

lemma hex_val_fmt_x: "hex_val (fmt_x n) = n"
proof (induction n rule: fmt_x.induct)
  case (1 n)
  show ?case
  proof (cases "n < 16")
    case True
    then show ?thesis by (subst fmt_x.simps) (simp add: hex_digit_val)
  next
    case False
    with "1.IH" have "hex_val (fmt_x (n div 16)) = n div 16" by simp
    with False show ?thesis
      by (subst fmt_x.simps) (simp only: if_False hex_val_snoc hex_digit_val, simp add: hex_digit_val)
  qed
qed

lemma fmt_x_small: "n < 16 \<Longrightarrow> fmt_x n = [hex_digit n]"
  by (subst fmt_x.simps) simp

lemma fmt_x_two: "16 \<le> n \<Longrightarrow> n < 256 \<Longrightarrow> fmt_x n = [hex_digit (n div 16), hex_digit (n mod 16)]"
  by (subst fmt_x.simps) (simp add: fmt_x_small less_mult_imp_div_less)

lemma unat_byte_less: "unat (b :: byte) < 256"
  using unsigned_less [of b] by simp

lemma length_fmt_x_byte: "length (fmt_x (unat (b :: byte))) = (if unat b < 16 then 1 else 2)"
  using unat_byte_less [of b] by (simp add: fmt_x_small fmt_x_two)

lemma hd_fmt_x_byte: "(hd (fmt_x (unat (b :: byte))) = CHR ''0'') = (b = 0)"
proof (cases "unat b < 16")
  case True
  then show ?thesis by (simp add: fmt_x_small hex_digit_zero unat_eq_0)
next
  case False
  have "unat b < 256" by (rule unat_byte_less)
  with False have "unat b div 16 < 16" "unat b div 16 \<noteq> 0" by auto
  with False \<open>unat b < 256\<close> show ?thesis
    by (auto simp add: fmt_x_two hex_digit_zero)
qed

text \<open>
  C2. For every byte \<open>b\<close> the emitter writes \<^verbatim>\<open>0x\<close> followed by the lowercase
  hexadecimal digits of \<open>b\<close>: the digits are among \<^verbatim>\<open>0123456789abcdef\<close>, their value
  is \<open>b\<close>, there is one digit below 16 and two from 16 on, and the first digit is
  \<^verbatim>\<open>0\<close> only for \<open>b = 0\<close> (no padding). So 0 gives \<^verbatim>\<open>0x0\<close>, 10 gives
  \<^verbatim>\<open>0xa\<close> and 255 gives \<^verbatim>\<open>0xff\<close>. The last conjunct is the loop of
  \<open>convert\<close> on one byte, on a stream that accepts every write: it appends the separator
  and this literal.
\<close>

theorem byte_literal_hex:
  "set (fmt_x (unat (b :: byte))) \<subseteq> set ''0123456789abcdef''
   \<and> hex_val (fmt_x (unat b)) = unat b
   \<and> length (fmt_x (unat b)) = (if unat b < 16 then 1 else 2)
   \<and> (hd (fmt_x (unat b)) = CHR ''0'') = (b = 0)
   \<and> ''0x'' @ fmt_x (unat (0 :: byte)) = ''0x0''
   \<and> ''0x'' @ fmt_x (unat (10 :: byte)) = ''0xa''
   \<and> ''0x'' @ fmt_x (unat (255 :: byte)) = ''0xff''
   \<and> written (snd (snd (snd (convert_loop [Deliver b] (out\<lparr>fails := {}\<rparr>) lang
          (c :: 'w::len word)))))
       = written out
         @ (if c \<noteq> 0 \<and> c mod of_nat ELEMS_PER_LINE \<noteq> 0 then '','' @ tab
            else nl @ def lang @ tab)
         @ ''0x'' @ fmt_x (unat b)"
proof -
  have ex: "fmt_x (unat (0 :: byte)) = ''0''" "fmt_x (unat (10 :: byte)) = ''a''"
    "fmt_x (unat (255 :: byte)) = ''ff''"
    by (simp_all add: fmt_x_small fmt_x_two hex_digit_def)
  have emit: "written (snd (snd (snd (convert_loop [Deliver b] (out\<lparr>fails := {}\<rparr>) lang c))))
       = written out
         @ (if c \<noteq> 0 \<and> c mod of_nat ELEMS_PER_LINE \<noteq> 0 then '','' @ tab
            else nl @ def lang @ tab)
         @ ''0x'' @ fmt_x (unat b)"
    by (simp add: fprintf_def)
  show ?thesis
    using set_fmt_x [of "unat b"] hex_val_fmt_x [of "unat b"] length_fmt_x_byte [of b]
      hd_fmt_x_byte [of b] ex emit
    by (simp only: append_Cons append_Nil simp_thms)
qed

subsection \<open>The output stream and the loop\<close>

lemma fprintf_ok:
  "ncalls out \<notin> fails out \<Longrightarrow>
   fprintf out s = (int (length s), out\<lparr>written := written out @ s, ncalls := Suc (ncalls out)\<rparr>)"
  by (simp add: fprintf_def)

lemma fprintf_fail:
  "ncalls out \<in> fails out \<Longrightarrow> fprintf out s = (- 1, out\<lparr>ncalls := Suc (ncalls out)\<rparr>)"
  by (simp add: fprintf_def)

lemma clear_0: "clear out 0"
  by (simp add: clear_def)

lemma clear_Suc: "clear out (Suc m) = (clear out m \<and> ncalls out + m \<notin> fails out)"
  by (auto simp: clear_def less_Suc_eq)

lemma clear_add:
  "clear out (a + m) =
   (clear out a \<and> clear (out\<lparr>written := x, ncalls := ncalls out + a\<rparr>) m)"
proof -
  have "(\<forall>i < a + m. ncalls out + i \<notin> fails out) =
        ((\<forall>i < a. ncalls out + i \<notin> fails out) \<and> (\<forall>i < m. ncalls out + a + i \<notin> fails out))"
  proof (intro iffI conjI allI impI)
    fix i assume h: "(\<forall>i<a. ncalls out + i \<notin> fails out) \<and> (\<forall>i<m. ncalls out + a + i \<notin> fails out)"
      and i: "i < a + m"
    show "ncalls out + i \<notin> fails out"
    proof (cases "i < a")
      case True with h show ?thesis by simp
    next
      case False
      with i have "i - a < m" by simp
      with h have "ncalls out + a + (i - a) \<notin> fails out" by blast
      with False show ?thesis by simp
    qed
  qed (auto simp: add.assoc)
  then show ?thesis by (simp add: clear_def)
qed

lemma clear_mono: "clear out m \<Longrightarrow> k \<le> m \<Longrightarrow> clear out k"
  by (simp add: clear_def)

lemma sep_word:
  assumes "4 \<le> LENGTH('w::len)"
  shows "((of_nat n :: 'w word) \<noteq> 0 \<and> (of_nat n :: 'w word) mod of_nat ELEMS_PER_LINE \<noteq> 0)
         = (\<not> (n = 0 \<or> n mod 8 = 0))"
proof -
  have pw: "(2::nat) ^ 4 \<le> 2 ^ LENGTH('w)"
    by (rule power_increasing [OF assms]) simp
  have dvd: "(8::nat) dvd 2 ^ LENGTH('w)"
  proof -
    have "(2::nat) ^ 3 dvd 2 ^ LENGTH('w)"
      by (rule le_imp_power_dvd) (use assms in simp)
    then show ?thesis by simp
  qed
  have eight: "unat (of_nat ELEMS_PER_LINE :: 'w word) = 8"
  proof -
    have "(8::nat) < 2 ^ LENGTH('w)" using pw by simp
    then show ?thesis
      by (simp add: ELEMS_PER_LINE_def unat_of_nat take_bit_nat_eq_self)
  qed
  have "unat ((of_nat n :: 'w word) mod of_nat ELEMS_PER_LINE) = n mod 2 ^ LENGTH('w) mod 8"
    by (simp only: unat_mod eight) (simp only: unat_of_nat)
  also have "\<dots> = n mod 8"
    using dvd by (rule mod_mod_cancel)
  finally have m: "((of_nat n :: 'w word) mod of_nat ELEMS_PER_LINE \<noteq> 0) = (n mod 8 \<noteq> 0)"
    by (metis unat_eq_0)
  have z: "(of_nat n :: 'w word) = 0 \<Longrightarrow> n mod 8 = 0"
    using m by fastforce
  show ?thesis using m z by auto
qed

lemma convert_loop_run:
  assumes w: "4 \<le> LENGTH('w::len)"
  shows "clear out (2 * length bs) \<Longrightarrow>
    convert_loop (map Deliver bs @ rest) out lang (of_nat n :: 'w word) =
    convert_loop rest
      (out\<lparr>written := written out @ byte_lines (def lang) n bs,
           ncalls := ncalls out + 2 * length bs\<rparr>) lang (of_nat (n + length bs))"
proof (induction bs arbitrary: out n)
  case Nil
  then show ?case by simp
next
  case (Cons b bs)
  let ?sep = "separator (def lang) n"
  let ?out1 = "out\<lparr>written := written out @ ?sep, ncalls := Suc (ncalls out)\<rparr>"
  let ?out2 = "out\<lparr>written := written out @ ?sep @ ''0x'' @ fmt_x (unat b),
                   ncalls := ncalls out + 2\<rparr>"
  from Cons.prems have c2: "clear out 2" by (rule clear_mono) simp
  then have f0: "ncalls out \<notin> fails out" and f1: "Suc (ncalls out) \<notin> fails out"
    by (simp_all add: clear_def numeral_2_eq_2 less_Suc_eq)
  have "clear out (2 + 2 * length bs)" using Cons.prems by simp
  then have rest: "clear ?out2 (2 * length bs)"
    by (subst (asm) clear_add [where x = "written out @ ?sep @ ''0x'' @ fmt_x (unat b)"]) simp
  have step: "convert_loop (map Deliver (b # bs) @ rest) out lang (of_nat n :: 'w word) =
        convert_loop (map Deliver bs @ rest) ?out2 lang (of_nat (Suc n))"
    using f0 f1 sep_word [OF w, of n]
    by (simp add: fprintf_def add.commute separator_def)
  show ?case
    by (simp only: step Cons.IH [OF rest]) simp
qed

subsection \<open>The runs of the loop and of convert\<close>

lemma convert_loop_step:
  assumes w: "4 \<le> LENGTH('w::len)"
    and f0: "ncalls out \<notin> fails out" and f1: "Suc (ncalls out) \<notin> fails out"
  shows "convert_loop (Deliver b # inp) out lang (of_nat n :: 'w word) =
         convert_loop inp
           (out\<lparr>written := written out @ separator (def lang) n @ ''0x'' @ fmt_x (unat b),
                ncalls := ncalls out + 2\<rparr>) lang (of_nat (Suc n))"
  using f0 f1 sep_word [OF w, of n]
  by (simp add: fprintf_def add.commute separator_def)

lemma convert_loop_stop1:
  assumes f0: "ncalls out \<in> fails out"
  shows "convert_loop (Deliver b # inp) out lang c =
         (- 2, c, inp, out\<lparr>ncalls := ncalls out + 1\<rparr>)"
  using f0 by (simp add: fprintf_def)

lemma convert_loop_stop2:
  assumes w: "4 \<le> LENGTH('w::len)"
    and f0: "ncalls out \<notin> fails out" and f1: "Suc (ncalls out) \<in> fails out"
  shows "convert_loop (Deliver b # inp) out lang (of_nat n :: 'w word) =
         (- 2, of_nat n, inp,
          out\<lparr>written := written out @ separator (def lang) n, ncalls := ncalls out + 2\<rparr>)"
  using f0 f1 sep_word [OF w, of n]
  by (simp add: fprintf_def separator_def)

lemma convert_loop_cases:
  assumes w: "4 \<le> LENGTH('w::len)"
  shows "convert_loop inp out lang (of_nat n :: 'w word) = (st, c, inp', out') \<Longrightarrow>
    \<exists>bs. c = of_nat (n + length bs) \<and> clear out (2 * length bs) \<and>
      ((st = 0 \<and> inp = map Deliver bs \<and> inp' = [] \<and>
        out' = out\<lparr>written := written out @ byte_lines (def lang) n bs,
                    ncalls := ncalls out + 2 * length bs\<rparr>)
       \<or> (st = - 1 \<and> inp = map Deliver bs @ Fail # inp' \<and>
        out' = out\<lparr>written := written out @ byte_lines (def lang) n bs,
                    ncalls := ncalls out + 2 * length bs\<rparr>)
       \<or> (st = - 2 \<and> (\<exists>b. inp = map Deliver bs @ Deliver b # inp') \<and>
        ncalls out + 2 * length bs \<in> fails out \<and>
        out' = out\<lparr>written := written out @ byte_lines (def lang) n bs,
                    ncalls := ncalls out + 2 * length bs + 1\<rparr>)
       \<or> (st = - 2 \<and> (\<exists>b. inp = map Deliver bs @ Deliver b # inp') \<and>
        ncalls out + 2 * length bs \<notin> fails out \<and>
        ncalls out + 2 * length bs + 1 \<in> fails out \<and>
        out' = out\<lparr>written := written out @ byte_lines (def lang) n bs
                                 @ separator (def lang) (n + length bs),
                    ncalls := ncalls out + 2 * length bs + 2\<rparr>))"
proof (induction inp arbitrary: out n)
  case Nil
  then show ?case by (intro exI [of _ "[]"]) (simp add: clear_def)
next
  case (Cons e inp)
  show ?case
  proof (cases e)
    case Fail
    with Cons.prems show ?thesis by (intro exI [of _ "[]"]) (simp add: clear_def)
  next
    case (Deliver b)
    consider (a) "ncalls out \<in> fails out"
      | (b) "ncalls out \<notin> fails out" "Suc (ncalls out) \<in> fails out"
      | (c) "ncalls out \<notin> fails out" "Suc (ncalls out) \<notin> fails out"
      by blast
    then show ?thesis
    proof cases
      case a
      from Cons.prems Deliver a
      have "(- 2, of_nat n, inp, out\<lparr>ncalls := ncalls out + 1\<rparr>) = (st, c, inp', out')"
        by (simp only: convert_loop_stop1 [OF a])
      with a Deliver show ?thesis
        by (intro exI [of _ "[]"]) (auto simp add: clear_def)
    next
      case b
      from Cons.prems Deliver b
      have "(- 2, of_nat n, inp,
             out\<lparr>written := written out @ separator (def lang) n, ncalls := ncalls out + 2\<rparr>)
            = (st, c, inp', out')"
        by (simp only: convert_loop_stop2 [OF w b])
      with b Deliver show ?thesis
        by (intro exI [of _ "[]"]) (auto simp add: clear_def)
    next
      case c
      let ?out2 = "out\<lparr>written := written out @ separator (def lang) n @ ''0x'' @ fmt_x (unat b),
                ncalls := ncalls out + 2\<rparr>"
      from Cons.prems Deliver c
      have run: "convert_loop inp ?out2 lang (of_nat (Suc n) :: 'w word) = (st, c, inp', out')"
        by (simp only: convert_loop_step [OF w c])
      from Cons.IH [OF run] obtain bs where
        cnt: "c = of_nat (Suc n + length bs)" and cl: "clear ?out2 (2 * length bs)" and
        alt: "(st = 0 \<and> inp = map Deliver bs \<and> inp' = [] \<and>
          out' = ?out2\<lparr>written := written ?out2 @ byte_lines (def lang) (Suc n) bs,
                    ncalls := ncalls ?out2 + 2 * length bs\<rparr>)
       \<or> (st = - 1 \<and> inp = map Deliver bs @ Fail # inp' \<and>
          out' = ?out2\<lparr>written := written ?out2 @ byte_lines (def lang) (Suc n) bs,
                    ncalls := ncalls ?out2 + 2 * length bs\<rparr>)
       \<or> (st = - 2 \<and> (\<exists>b. inp = map Deliver bs @ Deliver b # inp') \<and>
          ncalls ?out2 + 2 * length bs \<in> fails ?out2 \<and>
          out' = ?out2\<lparr>written := written ?out2 @ byte_lines (def lang) (Suc n) bs,
                    ncalls := ncalls ?out2 + 2 * length bs + 1\<rparr>)
       \<or> (st = - 2 \<and> (\<exists>b. inp = map Deliver bs @ Deliver b # inp') \<and>
          ncalls ?out2 + 2 * length bs \<notin> fails ?out2 \<and>
          ncalls ?out2 + 2 * length bs + 1 \<in> fails ?out2 \<and>
          out' = ?out2\<lparr>written := written ?out2 @ byte_lines (def lang) (Suc n) bs
                                 @ separator (def lang) (Suc n + length bs),
                    ncalls := ncalls ?out2 + 2 * length bs + 2\<rparr>)"
        by blast
      have c2: "clear out 2"
        using c by (simp add: clear_def numeral_2_eq_2 less_Suc_eq)
      have cl': "clear out (2 * length (b # bs))"
        using clear_add [of out 2 "2 * length bs"
            "written out @ separator (def lang) n @ ''0x'' @ fmt_x (unat b)"] c2 cl
        by simp
      show ?thesis
        using cnt cl' alt Deliver
        by (intro exI [of _ "b # bs"]) (simp add: add.assoc)
    qed
  qed
qed

lemma convert_head1:
  "ncalls out \<in> fails out \<Longrightarrow>
   convert inp out lang fname = (- 2, 0, inp, out\<lparr>ncalls := ncalls out + 1\<rparr>)"
  by (simp add: convert_def fprintf_def)

lemma convert_head2:
  "ncalls out \<notin> fails out \<Longrightarrow> Suc (ncalls out) \<in> fails out \<Longrightarrow>
   convert inp out lang fname =
     (- 2, 0, inp,
      out\<lparr>written := written out @ export_data_line lang fname @ nl, ncalls := ncalls out + 2\<rparr>)"
  by (simp add: convert_def fprintf_def export_data_line_def)

lemma convert_after_loop:
  assumes "ncalls out \<notin> fails out" "Suc (ncalls out) \<notin> fails out"
    and "convert_loop inp
           (out\<lparr>written := written out @ header lang fname, ncalls := ncalls out + 2\<rparr>)
           lang 0 = (st, c, inp1, out3)"
  shows "convert inp out lang fname =
     (if st \<noteq> 0 then (st, c, inp1, out3)
      else if ncalls out3 \<in> fails out3 then (- 2, c, inp1, out3\<lparr>ncalls := ncalls out3 + 1\<rparr>)
      else if Suc (ncalls out3) \<in> fails out3
        then (- 2, c, inp1,
              out3\<lparr>written := written out3 @ nl @ nl @ export_size_line lang fname @ nl,
                   ncalls := ncalls out3 + 2\<rparr>)
      else (0, c, inp1,
            out3\<lparr>written := written out3 @ footer lang fname, ncalls := ncalls out3 + 2\<rparr>))"
  using assms
  by (simp add: convert_def fprintf_def header_def footer_def export_data_line_def
      data_label_line_def export_size_line_def size_label_line_def)

lemma clear_Suc_add: "clear out m \<Longrightarrow> ncalls out + m \<notin> fails out \<Longrightarrow> clear out (Suc m)"
  by (simp add: clear_Suc)

lemma convert_cases:
  assumes w: "4 \<le> LENGTH('w::len)"
    and run: "convert inp out lang fname = (ret, c :: 'w word, inp', out')"
  shows "\<exists>bs. c = of_nat (length bs) \<and>
    ((ret = 0 \<and> inp = map Deliver bs \<and> inp' = [] \<and> clear out (2 * length bs + 4) \<and>
      out' = out\<lparr>written := written out @ header lang fname
                     @ byte_lines (def lang) 0 bs @ footer lang fname,
                  ncalls := ncalls out + (2 * length bs + 4)\<rparr>)
     \<or> (ret = - 1 \<and> inp = map Deliver bs @ Fail # inp' \<and> clear out (2 * length bs + 2) \<and>
      out' = out\<lparr>written := written out @ header lang fname @ byte_lines (def lang) 0 bs,
                  ncalls := ncalls out + (2 * length bs + 2)\<rparr>)
     \<or> (ret = - 2 \<and>
      (\<exists>m T. clear out m \<and> ncalls out + m \<in> fails out \<and>
         out' = out\<lparr>written := written out @ T, ncalls := ncalls out + (m + 1)\<rparr> \<and>
         ((m = 0 \<and> T = [] \<and> bs = [] \<and> inp' = inp)
          \<or> (m = 1 \<and> T = export_data_line lang fname @ nl \<and> bs = [] \<and> inp' = inp)
          \<or> (m = 2 * length bs + 2 \<and> T = header lang fname @ byte_lines (def lang) 0 bs \<and>
              (\<exists>b. inp = map Deliver bs @ Deliver b # inp'))
          \<or> (m = 2 * length bs + 3 \<and>
              T = header lang fname @ byte_lines (def lang) 0 bs
                    @ separator (def lang) (length bs) \<and>
              (\<exists>b. inp = map Deliver bs @ Deliver b # inp'))
          \<or> (m = 2 * length bs + 2 \<and> T = header lang fname @ byte_lines (def lang) 0 bs \<and>
              inp = map Deliver bs \<and> inp' = [])
          \<or> (m = 2 * length bs + 3 \<and>
              T = header lang fname @ byte_lines (def lang) 0 bs
                    @ nl @ nl @ export_size_line lang fname @ nl \<and>
              inp = map Deliver bs \<and> inp' = [])))))"
proof -
  consider (a) "ncalls out \<in> fails out"
    | (b) "ncalls out \<notin> fails out" "Suc (ncalls out) \<in> fails out"
    | (c) "ncalls out \<notin> fails out" "Suc (ncalls out) \<notin> fails out"
    by blast
  then show ?thesis
  proof cases
    case a
    from run have "(- 2, 0, inp, out\<lparr>ncalls := ncalls out + 1\<rparr>) = (ret, c, inp', out')"
      by (simp only: convert_head1 [OF a])
    then have r: "ret = - 2" "c = 0" "inp' = inp" "out' = out\<lparr>ncalls := ncalls out + 1\<rparr>"
      by simp_all
    show ?thesis
      apply (rule exI [of _ "[]"])
      apply (simp add: r)
      apply (rule exI [of _ 0])
      apply (simp add: a clear_0)
      done
  next
    case b
    from run have "(- 2, 0, inp,
      out\<lparr>written := written out @ export_data_line lang fname @ nl, ncalls := ncalls out + 2\<rparr>)
      = (ret, c, inp', out')"
      by (simp only: convert_head2 [OF b])
    then have r: "ret = - 2" "c = 0" "inp' = inp"
      "out' = out\<lparr>written := written out @ export_data_line lang fname @ nl,
                  ncalls := ncalls out + 2\<rparr>"
      by simp_all
    have c1: "clear out (Suc 0)" using b by (simp add: clear_def)
    show ?thesis
      apply (rule exI [of _ "[]"])
      apply (simp add: r)
      apply (rule exI [of _ 1])
      apply (simp add: b c1)
      done
  next
    case c
    let ?out2 = "out\<lparr>written := written out @ header lang fname, ncalls := ncalls out + 2\<rparr>"
    obtain st c1 inp1 out3 where
      loop: "convert_loop inp ?out2 lang (0 :: 'w word) = (st, c1, inp1, out3)"
      by (rule prod_cases4)
    have c2: "clear out 2"
      using c by (simp add: clear_def numeral_2_eq_2 less_Suc_eq)
    from loop have "convert_loop inp ?out2 lang (of_nat 0 :: 'w word) = (st, c1, inp1, out3)"
      by simp
    from convert_loop_cases [OF w this] obtain bs where
      cnt: "c1 = of_nat (length bs)" and cl: "clear ?out2 (2 * length bs)" and
      alt: "(st = 0 \<and> inp = map Deliver bs \<and> inp1 = [] \<and>
        out3 = ?out2\<lparr>written := written ?out2 @ byte_lines (def lang) 0 bs,
                    ncalls := ncalls ?out2 + 2 * length bs\<rparr>)
       \<or> (st = - 1 \<and> inp = map Deliver bs @ Fail # inp1 \<and>
        out3 = ?out2\<lparr>written := written ?out2 @ byte_lines (def lang) 0 bs,
                    ncalls := ncalls ?out2 + 2 * length bs\<rparr>)
       \<or> (st = - 2 \<and> (\<exists>b. inp = map Deliver bs @ Deliver b # inp1) \<and>
        ncalls ?out2 + 2 * length bs \<in> fails ?out2 \<and>
        out3 = ?out2\<lparr>written := written ?out2 @ byte_lines (def lang) 0 bs,
                    ncalls := ncalls ?out2 + 2 * length bs + 1\<rparr>)
       \<or> (st = - 2 \<and> (\<exists>b. inp = map Deliver bs @ Deliver b # inp1) \<and>
        ncalls ?out2 + 2 * length bs \<notin> fails ?out2 \<and>
        ncalls ?out2 + 2 * length bs + 1 \<in> fails ?out2 \<and>
        out3 = ?out2\<lparr>written := written ?out2 @ byte_lines (def lang) 0 bs
                                 @ separator (def lang) (0 + length bs),
                    ncalls := ncalls ?out2 + 2 * length bs + 2\<rparr>)"
      by auto
    have clb: "clear out (2 * length bs + 2)"
      using clear_add [of out 2 "2 * length bs" "written out @ header lang fname"] c2 cl
      by (simp add: add.commute)
    note clb = clb clb [simplified]
    note conv = convert_after_loop [OF c loop]
    from alt consider
      (ok) "st = 0" "inp = map Deliver bs" "inp1 = []"
        "out3 = ?out2\<lparr>written := written ?out2 @ byte_lines (def lang) 0 bs,
                    ncalls := ncalls ?out2 + 2 * length bs\<rparr>"
      | (rd) "st = - 1" "inp = map Deliver bs @ Fail # inp1"
        "out3 = ?out2\<lparr>written := written ?out2 @ byte_lines (def lang) 0 bs,
                    ncalls := ncalls ?out2 + 2 * length bs\<rparr>"
      | (w1) "st = - 2" "\<exists>b. inp = map Deliver bs @ Deliver b # inp1"
        "ncalls ?out2 + 2 * length bs \<in> fails ?out2"
        "out3 = ?out2\<lparr>written := written ?out2 @ byte_lines (def lang) 0 bs,
                    ncalls := ncalls ?out2 + 2 * length bs + 1\<rparr>"
      | (w2) "st = - 2" "\<exists>b. inp = map Deliver bs @ Deliver b # inp1"
        "ncalls ?out2 + 2 * length bs \<notin> fails ?out2"
        "ncalls ?out2 + 2 * length bs + 1 \<in> fails ?out2"
        "out3 = ?out2\<lparr>written := written ?out2 @ byte_lines (def lang) 0 bs
                                 @ separator (def lang) (0 + length bs),
                    ncalls := ncalls ?out2 + 2 * length bs + 2\<rparr>"
      by blast
    then show ?thesis
    proof cases
      case rd
      from run conv rd(1) have r: "ret = - 1" "c = c1" "inp' = inp1" "out' = out3"
        by simp_all
      show ?thesis
        apply (rule exI [of _ bs])
        apply (simp add: r cnt rd clb)
        done
    next
      case w1
      from run conv w1(1) have r: "ret = - 2" "c = c1" "inp' = inp1" "out' = out3"
        by simp_all
      from w1(3) have f: "ncalls out + (2 * length bs + 2) \<in> fails out"
        by (simp add: add.commute add.left_commute)
      have last_call: "clear out (2 * length bs + 2) \<and>
         ncalls out + (2 * length bs + 2) \<in> fails out \<and>
         out' = out\<lparr>written := written out @ (header lang fname @ byte_lines (def lang) 0 bs),
                     ncalls := ncalls out + (2 * length bs + 2 + 1)\<rparr>"
        by (simp add: clb f w1(4) r f [simplified])
      show ?thesis
        apply (rule exI [of _ bs])
        apply (rule conjI)
         apply (simp add: r cnt)
        apply (rule disjI2)
        apply (rule disjI2)
        apply (rule conjI)
         apply (rule r)
        apply (rule exI [of _ "2 * length bs + 2"])
        apply (rule exI [of _ "(header lang fname @ byte_lines (def lang) 0 bs)"])
        using last_call w1(2) r apply simp
        done
    next
      case w2
      from run conv w2(1) have r: "ret = - 2" "c = c1" "inp' = inp1" "out' = out3"
        by simp_all
      from w2(3) have g: "ncalls out + (2 * length bs + 2) \<notin> fails out"
        by (simp add: add.commute add.left_commute)
      from w2(4) have f: "ncalls out + (2 * length bs + 3) \<in> fails out"
        by (simp add: add.commute add.left_commute numeral_3_eq_3)
      have cl3: "clear out (2 * length bs + 3)"
        using clear_Suc_add [OF clb(1) g] by (simp add: numeral_3_eq_3)
      have last_call: "clear out (2 * length bs + 3) \<and>
         ncalls out + (2 * length bs + 3) \<in> fails out \<and>
         out' = out\<lparr>written := written out @ (header lang fname @ byte_lines (def lang) 0 bs @ separator (def lang) (length bs)),
                     ncalls := ncalls out + (2 * length bs + 3 + 1)\<rparr>"
        by (simp add: cl3 f w2(5) r)
      show ?thesis
        apply (rule exI [of _ bs])
        apply (rule conjI)
         apply (simp add: r cnt)
        apply (rule disjI2)
        apply (rule disjI2)
        apply (rule conjI)
         apply (rule r)
        apply (rule exI [of _ "2 * length bs + 3"])
        apply (rule exI [of _ "(header lang fname @ byte_lines (def lang) 0 bs @ separator (def lang) (length bs))"])
        using last_call w2(2) r apply simp
        done
    next
      case ok
      have n3: "ncalls out3 = ncalls out + (2 * length bs + 2)" "fails out3 = fails out"
        by (simp_all add: ok(4))
      consider (f1) "ncalls out3 \<in> fails out3"
        | (f2) "ncalls out3 \<notin> fails out3" "Suc (ncalls out3) \<in> fails out3"
        | (f3) "ncalls out3 \<notin> fails out3" "Suc (ncalls out3) \<notin> fails out3"
        by blast
      then show ?thesis
      proof cases
        case f1
        from run conv ok(1) f1 have r: "ret = - 2" "c = c1" "inp' = inp1"
          "out' = out3\<lparr>ncalls := ncalls out3 + 1\<rparr>"
          by simp_all
        from f1 have f: "ncalls out + (2 * length bs + 2) \<in> fails out"
          by (simp add: n3)
        have last_call: "clear out (2 * length bs + 2) \<and>
           ncalls out + (2 * length bs + 2) \<in> fails out \<and>
           out' = out\<lparr>written := written out @ (header lang fname @ byte_lines (def lang) 0 bs),
                       ncalls := ncalls out + (2 * length bs + 2 + 1)\<rparr>"
          by (simp add: clb f ok r f [simplified])
        show ?thesis
          apply (rule exI [of _ bs])
          apply (rule conjI)
           apply (simp add: r cnt)
          apply (rule disjI2)
          apply (rule disjI2)
          apply (rule conjI)
           apply (rule r)
          apply (rule exI [of _ "2 * length bs + 2"])
          apply (rule exI [of _ "(header lang fname @ byte_lines (def lang) 0 bs)"])
          using last_call ok r apply simp
          done
      next
        case f2
        from run conv ok(1) f2 have r: "ret = - 2" "c = c1" "inp' = inp1"
          "out' = out3\<lparr>written := written out3 @ nl @ nl @ export_size_line lang fname @ nl,
                   ncalls := ncalls out3 + 2\<rparr>"
          by simp_all
        from f2 have g: "ncalls out + (2 * length bs + 2) \<notin> fails out"
          and f: "ncalls out + (2 * length bs + 3) \<in> fails out"
          by (simp_all add: n3 numeral_3_eq_3)
        have cl3: "clear out (2 * length bs + 3)"
          using clear_Suc_add [OF clb(1) g] by (simp add: numeral_3_eq_3)
        have last_call: "clear out (2 * length bs + 3) \<and>
           ncalls out + (2 * length bs + 3) \<in> fails out \<and>
           out' = out\<lparr>written := written out @ (header lang fname @ byte_lines (def lang) 0 bs @ nl @ nl @ export_size_line lang fname @ nl),
                       ncalls := ncalls out + (2 * length bs + 3 + 1)\<rparr>"
          by (simp add: cl3 f ok r)
        show ?thesis
          apply (rule exI [of _ bs])
          apply (rule conjI)
           apply (simp add: r cnt)
          apply (rule disjI2)
          apply (rule disjI2)
          apply (rule conjI)
           apply (rule r)
          apply (rule exI [of _ "2 * length bs + 3"])
          apply (rule exI [of _ "(header lang fname @ byte_lines (def lang) 0 bs @ nl @ nl @ export_size_line lang fname @ nl)"])
          using last_call ok r apply simp
          done
      next
        case f3
        from run conv ok(1) f3 have r: "ret = 0" "c = c1" "inp' = inp1"
          "out' = out3\<lparr>written := written out3 @ footer lang fname,
                   ncalls := ncalls out3 + 2\<rparr>"
          by simp_all
        from f3 have g: "ncalls out + (2 * length bs + 2) \<notin> fails out"
          and h: "ncalls out + (2 * length bs + 3) \<notin> fails out"
          by (simp_all add: n3 numeral_3_eq_3)
        have cl3: "clear out (Suc (2 * length bs + 2))"
          by (rule clear_Suc_add [OF clb(1) g])
        have "clear out (Suc (Suc (2 * length bs + 2)))"
          by (rule clear_Suc_add [OF cl3]) (use h in \<open>simp add: numeral_3_eq_3\<close>)
        then have cl4: "clear out (2 * length bs + 4)"
          by (simp add: eval_nat_numeral)
        show ?thesis
          apply (rule exI [of _ bs])
          apply (simp add: r cnt cl4 ok)
          done
      qed
    qed
  qed
qed

subsection \<open>Lines of eight\<close>

lemma group8_Nil: "group8 [] = []"
  by (simp add: group8.simps)

lemma group8_Cons: "xs \<noteq> [] \<Longrightarrow> group8 xs = take 8 xs # group8 (drop 8 xs)"
  by (subst group8.simps) simp

lemma concat_group8: "concat (group8 xs) = xs"
proof (induction xs rule: group8.induct)
  case (1 xs)
  then show ?case by (cases "xs = []") (simp_all add: group8_Nil group8_Cons [of xs])
qed

lemma ceil8_step: "0 < (n::nat) \<Longrightarrow> Suc ((n - 8 + 7) div 8) = (n + 7) div 8"
proof (cases "n < 8")
  case True
  moreover assume "0 < n"
  ultimately show ?thesis by simp
next
  case False
  then obtain m where "n = m + 8" by (metis add.commute le_Suc_ex not_less)
  then show ?thesis by simp
qed

lemma length_group8: "length (group8 xs) = (length xs + 7) div 8"
proof (induction xs rule: group8.induct)
  case (1 xs)
  show ?case
  proof (cases "xs = []")
    case True
    then show ?thesis by (simp add: group8_Nil)
  next
    case False
    then have pos: "0 < length xs" by simp
    have "length (group8 xs) = Suc (length (group8 (drop 8 xs)))"
      using False by (simp add: group8_Cons [of xs])
    also have "\<dots> = Suc ((length xs - 8 + 7) div 8)"
      using False "1.IH" by simp
    also have "\<dots> = (length xs + 7) div 8"
      using pos by (rule ceil8_step)
    finally show ?thesis .
  qed
qed

lemma group8_sizes: "g \<in> set (group8 xs) \<Longrightarrow> 1 \<le> length g \<and> length g \<le> 8"
proof (induction xs rule: group8.induct)
  case (1 xs)
  show ?case
  proof (cases "xs = []")
    case True
    with "1.prems" show ?thesis by (simp add: group8_Nil)
  next
    case False
    with "1.prems" have "g = take 8 xs \<or> g \<in> set (group8 (drop 8 xs))"
      by (simp add: group8_Cons [of xs])
    then show ?thesis
    proof
      assume "g = take 8 xs"
      with False show ?thesis by (cases xs) simp_all
    next
      assume "g \<in> set (group8 (drop 8 xs))"
      with False "1.IH" show ?thesis by simp
    qed
  qed
qed

lemma group8_full: "g \<in> set (butlast (group8 xs)) \<Longrightarrow> length g = 8"
proof (induction xs rule: group8.induct)
  case (1 xs)
  show ?case
  proof (cases "xs = []")
    case True
    with "1.prems" show ?thesis by (simp add: group8_Nil)
  next
    case False
    show ?thesis
    proof (cases "drop 8 xs = []")
      case True
      with False "1.prems" show ?thesis by (simp add: group8_Cons [of xs] group8_Nil)
    next
      case more: False
      then have long: "8 < length xs" by simp
      from more have "group8 (drop 8 xs) \<noteq> []" by (simp add: group8_Cons [of "drop 8 xs"])
      with False "1.prems" have "g = take 8 xs \<or> g \<in> set (butlast (group8 (drop 8 xs)))"
        by (simp add: group8_Cons [of xs])
      then show ?thesis
      proof
        assume "g = take 8 xs"
        with long show ?thesis by simp
      next
        assume "g \<in> set (butlast (group8 (drop 8 xs)))"
        with False "1.IH" show ?thesis by simp
      qed
    qed
  qed
qed

lemma comma_sep_Cons:
  "comma_sep (x # xs) = x @ concat (map (\<lambda>y. '','' @ tab @ y) xs)"
  by (induction xs arbitrary: x) simp_all

lemma byte_lines_append:
  "byte_lines d c (xs @ ys) = byte_lines d c xs @ byte_lines d (c + length xs) ys"
  by (induction xs arbitrary: c) simp_all

lemma byte_lines_inner:
  "c mod 8 \<noteq> 0 \<Longrightarrow> c mod 8 + length g \<le> 8 \<Longrightarrow>
   byte_lines d c g = concat (map (\<lambda>b. '','' @ tab @ ''0x'' @ fmt_x (unat b)) g)"
proof (induction g arbitrary: c)
  case Nil
  then show ?case by simp
next
  case (Cons b g)
  show ?case
  proof (cases "g = []")
    case True
    with Cons.prems show ?thesis by (auto simp add: separator_def)
  next
    case False
    then have "0 < length g" by simp
    with Cons.prems have m: "Suc c mod 8 = Suc (c mod 8)"
      by (auto simp add: mod_Suc)
    with Cons.prems have "Suc c mod 8 \<noteq> 0" "Suc c mod 8 + length g \<le> 8"
      by simp_all
    from Cons.IH [OF this] Cons.prems show ?thesis
      by (auto simp add: separator_def)
  qed
qed

lemma byte_lines_line:
  assumes "c mod 8 = 0" "g \<noteq> []" "length g \<le> 8"
  shows "byte_lines d c g = line_of d g"
proof -
  from assms(2) obtain b g' where g: "g = b # g'" by (cases g) auto
  show ?thesis
  proof (cases "g' = []")
    case True
    with g assms show ?thesis by (simp add: line_of_def separator_def)
  next
    case False
    have "Suc c mod 8 = 1" using assms(1) by (simp add: mod_Suc)
    with assms(3) g have "Suc c mod 8 \<noteq> 0" "Suc c mod 8 + length g' \<le> 8"
      by simp_all
    from byte_lines_inner [OF this, of d] g assms(1) show ?thesis
      by (simp add: line_of_def separator_def comma_sep_Cons o_def)
  qed
qed

lemma byte_lines_group8:
  "c mod 8 = 0 \<Longrightarrow> byte_lines d c bs = concat (map (line_of d) (group8 bs))"
proof (induction bs arbitrary: c rule: group8.induct)
  case (1 bs)
  show ?case
  proof (cases "bs = []")
    case True
    then show ?thesis by (simp add: group8_Nil)
  next
    case False
    have split: "bs = take 8 bs @ drop 8 bs" by simp
    have first: "byte_lines d c (take 8 bs) = line_of d (take 8 bs)"
      using "1.prems" False by (intro byte_lines_line) simp_all
    have rest: "byte_lines d (c + length (take 8 bs)) (drop 8 bs)
                = concat (map (line_of d) (group8 (drop 8 bs)))"
    proof (cases "drop 8 bs = []")
      case True
      then show ?thesis by (simp add: group8_Nil)
    next
      case more: False
      then have "length (take 8 bs) = 8" by simp
      with "1.prems" have "(c + length (take 8 bs)) mod 8 = 0" by simp
      with False show ?thesis by (rule "1.IH")
    qed
    have "byte_lines d c bs = byte_lines d c (take 8 bs @ drop 8 bs)" by simp
    also have "\<dots> = line_of d (take 8 bs) @ concat (map (line_of d) (group8 (drop 8 bs)))"
      by (simp only: byte_lines_append first rest)
    finally show ?thesis using False by (simp add: group8_Cons [of bs])
  qed
qed

lemma convert_success:
  assumes w: "4 \<le> LENGTH('w::len)" and cl: "clear out (2 * length bs + 4)"
  shows "convert (map Deliver bs) out lang fname =
     (0, of_nat (length bs) :: 'w word, [],
      out\<lparr>written := written out @ header lang fname
                     @ byte_lines (def lang) 0 bs @ footer lang fname,
          ncalls := ncalls out + (2 * length bs + 4)\<rparr>)"
proof -
  let ?k = "length bs"
  let ?out2 = "out\<lparr>written := written out @ header lang fname, ncalls := ncalls out + 2\<rparr>"
  let ?out3 = "?out2\<lparr>written := written ?out2 @ byte_lines (def lang) 0 bs,
                     ncalls := ncalls ?out2 + 2 * ?k\<rparr>"
  have f: "\<And>i. i < 2 * ?k + 4 \<Longrightarrow> ncalls out + i \<notin> fails out"
    using cl by (simp add: clear_def)
  have f0: "ncalls out \<notin> fails out" using f [of 0] by simp
  have f1: "Suc (ncalls out) \<notin> fails out" using f [of 1] by simp
  have cl2: "clear ?out2 (2 * ?k)"
    unfolding clear_def
  proof (intro allI impI)
    fix i assume "i < 2 * ?k"
    then have "ncalls out + (i + 2) \<notin> fails out" by (intro f) simp
    then show "ncalls ?out2 + i \<notin> fails ?out2" by (simp add: add.commute add.left_commute)
  qed
  have loop: "convert_loop (map Deliver bs) ?out2 lang (0 :: 'w word)
              = (0, of_nat ?k, [], ?out3)"
    using convert_loop_run [OF w cl2, of "[]" lang 0] by simp
  have g0: "ncalls ?out3 \<notin> fails ?out3"
    using f [of "2 * ?k + 2"] by (simp add: add.commute add.left_commute)
  have g1: "Suc (ncalls ?out3) \<notin> fails ?out3"
    using f [of "2 * ?k + 3"] by (simp add: add.commute add.left_commute numeral_3_eq_3)
  show ?thesis
    using g0 g1 by (simp add: convert_after_loop [OF f0 f1 loop])
qed

subsection \<open>The claims about the emitted text\<close>

text \<open>
  C1. On a platform whose \<^verbatim>\<open>size_t\<close> has at least 16 bits (the C standard asks for
  that much), for every sequence of bytes that the input delivers before its end, on an
  output that accepts the writes: \<open>convert\<close> returns 0 and has written the header,
  the text \<open>byte_lines\<close> of the bytes and the footer. \<open>byte_lines\<close> is the rule of the
  specification byte by byte (a line break, the directive and a tab at the counts 0, 8,
  16, ..., a comma and a tab elsewhere), and it is the same text as one \<open>line_of\<close> for
  each group of \<open>group8\<close>: \<open>ceil (n / 8)\<close> lines, every line but the last with
  exactly 8 comma separated literals, the last with 1 to 8.
\<close>

theorem convert_lines:
  assumes w: "16 \<le> LENGTH('w::len)" and cl: "clear out (2 * length bs + 4)"
  shows "convert (map Deliver bs) out lang fname =
           (0, of_nat (length bs) :: 'w word, [],
            out\<lparr>written := written out @ header lang fname
                           @ byte_lines (def lang) 0 bs @ footer lang fname,
                ncalls := ncalls out + (2 * length bs + 4)\<rparr>)
         \<and> byte_lines (def lang) 0 bs = concat (map (line_of (def lang)) (group8 bs))
         \<and> concat (group8 bs) = bs
         \<and> length (group8 bs) = (length bs + 7) div 8
         \<and> (\<forall>g \<in> set (butlast (group8 bs)). length g = 8)
         \<and> (\<forall>g \<in> set (group8 bs). 1 \<le> length g \<and> length g \<le> 8)"
proof -
  from w have w4: "4 \<le> LENGTH('w)" by simp
  show ?thesis
    using convert_success [OF w4 cl, of lang fname] byte_lines_group8 [of 0 "def lang" bs]
      concat_group8 [of bs] length_group8 [of bs] group8_full [of _ bs] group8_sizes [of _ bs]
    by simp
qed

theorem convert_lines_witness:
  "16 \<le> LENGTH(64)
   \<and> clear \<lparr>written = [], ncalls = 0, fails = {}\<rparr> (2 * length [0, 1, 2, 3, 4, 5, 6, 7, 8, 9 :: byte] + 4)
   \<and> convert (map Deliver [0, 1, 2, 3, 4, 5, 6, 7, 8, 9])
        \<lparr>written = [], ncalls = 0, fails = {}\<rparr> (lang_specs ! 2) ''f'' =
       (0, 10 :: 64 word, [],
        \<lparr>written = ''.globl f_file'' @ nl @ ''f_file:'' @ nl
           @ nl @ ''.byte'' @ tab @ ''0x0,'' @ tab @ ''0x1,'' @ tab @ ''0x2,'' @ tab @ ''0x3,''
             @ tab @ ''0x4,'' @ tab @ ''0x5,'' @ tab @ ''0x6,'' @ tab @ ''0x7''
           @ nl @ ''.byte'' @ tab @ ''0x8,'' @ tab @ ''0x9''
           @ nl @ nl @ ''.globl f_file_size'' @ nl @ ''f_file_size: .long .-f_file'' @ nl,
         ncalls = 24, fails = {}\<rparr>)
   \<and> group8 [0, 1, 2, 3, 4, 5, 6, 7, 8, 9 :: byte] = [[0, 1, 2, 3, 4, 5, 6, 7], [8, 9]]
   \<and> length (group8 [0, 1, 2, 3, 4, 5, 6, 7, 8, 9 :: byte]) = (10 + 7) div 8"
proof -
  have cl: "clear \<lparr>written = [], ncalls = 0, fails = {}\<rparr> (2 * length [0, 1, 2, 3, 4, 5, 6, 7, 8, 9 :: byte] + 4)"
    by (simp add: clear_def)
  have w: "16 \<le> LENGTH(64)" by simp
  have g: "group8 [0, 1, 2, 3, 4, 5, 6, 7, 8, 9 :: byte] = [[0, 1, 2, 3, 4, 5, 6, 7], [8, 9]]"
    by (simp add: group8_Cons group8_Nil)
  show ?thesis
    using convert_lines [where 'w = 64, OF w cl, of "lang_specs ! 2" "''f''"] cl g
    by (simp add: lang_specs_def header_def footer_def export_data_line_def
        data_label_line_def export_size_line_def size_label_line_def separator_def
        fmt_x_small hex_digit_def nl_def tab_def)
qed

lemma split_lines_line:
  "CHR 0x0A \<notin> set a \<Longrightarrow> split_lines (a @ nl @ b) = a # split_lines b"
  by (induction a) (auto simp add: nl_def)

lemma split_lines_break: "split_lines (nl @ b) = [] # split_lines b"
  by (simp add: nl_def)

lemma lang_specs_cases:
  "lang \<in> set lang_specs \<Longrightarrow>
   lang = lang_specs ! 0 \<or> lang = lang_specs ! 1 \<or> lang = lang_specs ! 2"
  by (auto simp: lang_specs_def)

lemma lang_specs_no_newline:
  assumes "lang \<in> set lang_specs"
  shows "CHR 0x0A \<notin> set (glob_pre lang)" "CHR 0x0A \<notin> set (glob_post lang)"
    "CHR 0x0A \<notin> set (diff lang)" "CHR 0x0A \<notin> set (def lang)"
  using lang_specs_cases [OF assms] by (auto simp: lang_specs_def)

lemma lang_specs_diff:
  assumes "lang \<in> set lang_specs"
  shows "diff lang = (if name lang = ''as'' then ''.long .-'' else ''dd $-'')"
  using lang_specs_cases [OF assms] by (auto simp: lang_specs_def)

lemma not_blank_file: "\<not> blank (a @ ''_file'' @ b)" "\<not> blank (a @ ''_file:'')"
  "\<not> blank (a @ ''_file_size'' @ b)" "\<not> blank (a @ ''_file_size: '' @ b)"
  by (simp_all add: blank_def)

lemma convert_empty:
  assumes cl: "clear out 4"
  shows "convert [] out lang fname =
     (0, 0, [],
      out\<lparr>written := written out @ header lang fname @ footer lang fname,
          ncalls := ncalls out + 4\<rparr>)"
proof -
  have f: "\<And>i. i < 4 \<Longrightarrow> ncalls out + i \<notin> fails out"
    using cl by (simp add: clear_def)
  have f0: "ncalls out \<notin> fails out" using f [of 0] by simp
  have f1: "Suc (ncalls out) \<notin> fails out" using f [of 1] by simp
  have f2: "Suc (Suc (ncalls out)) \<notin> fails out" using f [of 2] by simp
  have f3: "Suc (Suc (Suc (ncalls out))) \<notin> fails out"
    using f [of 3] by (simp add: numeral_3_eq_3)
  show ?thesis
    using f0 f1 f2 f3
    by (simp add: convert_def fprintf_def header_def footer_def export_data_line_def
        data_label_line_def export_size_line_def size_label_line_def)
qed

text \<open>
  C3, as amended. For every dialect of the table and an input of length zero (the first
  \<^verbatim>\<open>fread\<close> meets the end of the file), with an identifier that has no line break
  in it and an output that accepts the four writes: \<open>convert\<close> returns 0 with count 0 and writes
  the header and the footer and nothing between them. The text has the lines: export
  directive of the data, data label, two empty lines, export directive of the size, size
  label; the four lines that are not blank are exactly these four, and the expression of
  the size label is the \<open>diff\<close> of the table entry (\<^verbatim>\<open>.long .-\<close> for as,
  \<^verbatim>\<open>dd $-\<close> for nasm and fasm) followed by the data label.
\<close>

theorem convert_empty_input:
  assumes lang: "lang \<in> set lang_specs" and fname: "CHR 0x0A \<notin> set fname"
    and cl: "clear out 4"
  shows "convert [] out lang fname =
           (0, 0 :: 'w::len word, [],
            out\<lparr>written := written out @ header lang fname @ footer lang fname,
                ncalls := ncalls out + 4\<rparr>)
         \<and> split_lines (header lang fname @ footer lang fname) =
             [export_data_line lang fname, data_label_line fname, [], [],
              export_size_line lang fname, size_label_line lang fname, []]
         \<and> non_blank_lines (header lang fname @ footer lang fname) =
             [export_data_line lang fname, data_label_line fname,
              export_size_line lang fname, size_label_line lang fname]
         \<and> size_label_line lang fname = fname @ ''_file_size: '' @ diff lang @ fname @ ''_file''
         \<and> diff lang = (if name lang = ''as'' then ''.long .-'' else ''dd $-'')"
proof -
  note nn = lang_specs_no_newline [OF lang]
  have l1: "CHR 0x0A \<notin> set (export_data_line lang fname)"
    and l2: "CHR 0x0A \<notin> set (data_label_line fname)"
    and l3: "CHR 0x0A \<notin> set (export_size_line lang fname)"
    and l4: "CHR 0x0A \<notin> set (size_label_line lang fname)"
    using nn fname
    by (simp_all add: export_data_line_def data_label_line_def export_size_line_def
        size_label_line_def)
  have "header lang fname @ footer lang fname =
        export_data_line lang fname @ nl @ data_label_line fname @ nl @ nl @ nl
          @ export_size_line lang fname @ nl @ size_label_line lang fname @ nl @ []"
    by (simp add: header_def footer_def)
  then have sp: "split_lines (header lang fname @ footer lang fname) =
             [export_data_line lang fname, data_label_line fname, [], [],
              export_size_line lang fname, size_label_line lang fname, []]"
    by (simp only: split_lines_line [OF l1] split_lines_line [OF l2] split_lines_line [OF l3]
        split_lines_line [OF l4] split_lines_break split_lines.simps)
  have nb: "non_blank_lines (header lang fname @ footer lang fname) =
             [export_data_line lang fname, data_label_line fname,
              export_size_line lang fname, size_label_line lang fname]"
    unfolding non_blank_lines_def sp
    by (simp add: export_data_line_def data_label_line_def export_size_line_def
        size_label_line_def not_blank_file) (simp add: blank_def)
  show ?thesis
    using convert_empty [OF cl, of lang fname] sp nb lang_specs_diff [OF lang]
    by (simp add: size_label_line_def)
qed

theorem convert_empty_input_witness:
  "lang_specs ! 0 \<in> set lang_specs \<and> CHR 0x0A \<notin> set ''f''
   \<and> clear \<lparr>written = [], ncalls = 0, fails = {}\<rparr> 4
   \<and> convert [] \<lparr>written = [], ncalls = 0, fails = {}\<rparr> (lang_specs ! 0) ''f'' =
       (0, 0 :: 64 word, [],
        \<lparr>written = ''[GLOBAL f_file]'' @ nl @ ''f_file:'' @ nl @ nl @ nl
           @ ''[GLOBAL f_file_size]'' @ nl @ ''f_file_size: dd $-f_file'' @ nl,
         ncalls = 4, fails = {}\<rparr>)
   \<and> non_blank_lines (header (lang_specs ! 0) ''f'' @ footer (lang_specs ! 0) ''f'') =
       [''[GLOBAL f_file]'', ''f_file:'', ''[GLOBAL f_file_size]'', ''f_file_size: dd $-f_file'']"
proof -
  have a: "lang_specs ! 0 \<in> set lang_specs" by (simp add: lang_specs_def)
  have b: "CHR 0x0A \<notin> set ''f''" by simp
  have c: "clear \<lparr>written = [], ncalls = 0, fails = {}\<rparr> 4" by (simp add: clear_def)
  show ?thesis
    using convert_empty_input [where 'w = 64, OF a b c] a c
    by (simp add: lang_specs_def header_def footer_def export_data_line_def
        data_label_line_def export_size_line_def size_label_line_def)
qed

text \<open>
  C3 as stated fails for a file name with a line break in it, which \<open>main\<close> passes
  on unchanged (it rewrites only \<^verbatim>\<open>.\<close> and \<^verbatim>\<open>-\<close>): for the name \<^verbatim>\<open>a\nb\<close>,
  dialect nasm and an empty input, each of the four lines of the fragment is broken in
  two or three, and the output has 9 lines that are not blank.
\<close>

theorem convert_empty_input_counterexample:
  "final_out (main \<lparr>in_files = [(''a'' @ nl @ ''b'', [])], out_files = [], stdout_fails = {}\<rparr>
               [''btoa'', ''nasm'', ''a'' @ nl @ ''b''] :: 64 word run)
     = Some \<lparr>written = ''[GLOBAL a'' @ nl @ ''b_file]'' @ nl @ ''a'' @ nl @ ''b_file:'' @ nl
               @ nl @ nl @ ''[GLOBAL a'' @ nl @ ''b_file_size]'' @ nl
               @ ''a'' @ nl @ ''b_file_size: dd $-a'' @ nl @ ''b_file'' @ nl,
             ncalls = 4, fails = {}\<rparr>
   \<and> non_blank_lines
        (''[GLOBAL a'' @ nl @ ''b_file]'' @ nl @ ''a'' @ nl @ ''b_file:'' @ nl
           @ nl @ nl @ ''[GLOBAL a'' @ nl @ ''b_file_size]'' @ nl
           @ ''a'' @ nl @ ''b_file_size: dd $-a'' @ nl @ ''b_file'' @ nl)
     = [''[GLOBAL a'', ''b_file]'', ''a'', ''b_file:'', ''[GLOBAL a'', ''b_file_size]'',
        ''a'', ''b_file_size: dd $-a'', ''b_file'']
   \<and> length
        (non_blank_lines
           (header (lang_specs ! 0) (''a'' @ nl @ ''b'') @ footer (lang_specs ! 0) (''a'' @ nl @ ''b'')))
     = 9"
  by (simp add: repl_in_filename_def IN_FILENAME_IDX_def main_def Let_def lookup_lang_spec_def
      lang_specs_def ARCH_NAME_IDX_def fopen_r_def stdout_stream_def convert_def fprintf_def
      cleanup_def fclose_def nl_def non_blank_lines_def blank_def header_def footer_def
      export_data_line_def data_label_line_def export_size_line_def size_label_line_def)

subsection \<open>The claims about the count\<close>

lemma convert_read_failure:
  assumes w: "4 \<le> LENGTH('w::len)" and cl: "clear out (2 * length bs + 2)"
  shows "convert (map Deliver bs @ Fail # rest) out lang fname =
     (- 1, of_nat (length bs) :: 'w word, rest,
      out\<lparr>written := written out @ header lang fname @ byte_lines (def lang) 0 bs,
          ncalls := ncalls out + (2 * length bs + 2)\<rparr>)"
proof -
  let ?k = "length bs"
  let ?out2 = "out\<lparr>written := written out @ header lang fname, ncalls := ncalls out + 2\<rparr>"
  let ?out3 = "?out2\<lparr>written := written ?out2 @ byte_lines (def lang) 0 bs,
                     ncalls := ncalls ?out2 + 2 * ?k\<rparr>"
  have f: "\<And>i. i < 2 * ?k + 2 \<Longrightarrow> ncalls out + i \<notin> fails out"
    using cl by (simp add: clear_def)
  have f0: "ncalls out \<notin> fails out" using f [of 0] by simp
  have f1: "Suc (ncalls out) \<notin> fails out" using f [of 1] by simp
  have cl2: "clear ?out2 (2 * ?k)"
    unfolding clear_def
  proof (intro allI impI)
    fix i assume "i < 2 * ?k"
    then have "ncalls out + (i + 2) \<notin> fails out" by (intro f) simp
    then show "ncalls ?out2 + i \<notin> fails ?out2" by (simp add: add.commute add.left_commute)
  qed
  have loop: "convert_loop (map Deliver bs @ Fail # rest) ?out2 lang (0 :: 'w word)
              = (- 1, of_nat ?k, rest, ?out3)"
    using convert_loop_run [OF w cl2, of "Fail # rest" lang 0] by simp
  show ?thesis
    by (simp add: convert_after_loop [OF f0 f1 loop])
qed

lemma convert_loop_count:
  "convert_loop inp out lang c = (0, c', inp', out') \<Longrightarrow>
   inp' = [] \<and> c' = c + of_nat (length inp) \<and> (\<exists>bs. inp = map Deliver bs)"
proof (induction inp arbitrary: out c)
  case Nil
  then show ?case by simp
next
  case (Cons e inp)
  show ?case
  proof (cases e)
    case Fail
    with Cons.prems show ?thesis by simp
  next
    case (Deliver b)
    with Cons.prems obtain out2 where
      "convert_loop inp out2 lang (c + 1) = (0, c', inp', out')"
      by (auto split: prod.splits if_splits)
    from Cons.IH [OF this] obtain bs where
      "inp' = []" "c' = c + 1 + of_nat (length inp)" "inp = map Deliver bs"
      by blast
    with Deliver show ?thesis
      by (intro conjI exI [of _ "b # bs"]) simp_all
  qed
qed

lemma convert_count_ok:
  assumes "convert inp out lang fname = (0, c, inp', out')"
  shows "inp' = [] \<and> c = of_nat (length inp) \<and> (\<exists>bs. inp = map Deliver bs)"
proof -
  from assms obtain out2 out3 where
    "convert_loop inp out2 lang 0 = (0, c, inp', out3)"
    by (auto simp: convert_def split: prod.splits if_splits)
  from convert_loop_count [OF this] show ?thesis by simp
qed

text \<open>
  C7, as amended. When \<open>convert\<close> returns 0, every read before the end of the input
  delivered a byte, the input is at its end, and the count is the number of bytes read
  modulo \<open>2 ^ N\<close>, where \<open>N\<close> is the width of \<^verbatim>\<open>size_t\<close>: the counter is a
  \<^verbatim>\<open>size_t\<close> that the loop increments and that wraps around. So the count is the
  number of bytes read for every input of fewer than \<open>2 ^ N\<close> bytes, and 0 for the empty
  input.
\<close>

theorem convert_count:
  assumes run: "convert inp out lang fname = (0, c :: 'w::len word, inp', out')"
  shows "\<exists>bs. inp = map Deliver bs \<and> inp' = []
           \<and> unat c = length bs mod 2 ^ LENGTH('w)
           \<and> (length bs < 2 ^ LENGTH('w) \<longrightarrow> unat c = length bs)
           \<and> (bs = [] \<longrightarrow> c = 0)"
proof -
  from convert_count_ok [OF run] obtain bs where
    bs: "inp = map Deliver bs" and e: "inp' = []" and c: "c = of_nat (length inp)"
    by blast
  from c bs have u: "unat c = length bs mod 2 ^ LENGTH('w)"
    by (simp add: unat_of_nat)
  show ?thesis
    using bs e u c by (intro exI [of _ bs]) simp
qed

theorem convert_count_witness:
  "convert (map Deliver [7, 8, 9]) \<lparr>written = [], ncalls = 0, fails = {}\<rparr> (lang_specs ! 1) ''f''
     = (0, 3 :: 64 word, [],
        \<lparr>written = ''global f_file'' @ nl @ ''f_file:'' @ nl
           @ nl @ ''db'' @ tab @ ''0x7,'' @ tab @ ''0x8,'' @ tab @ ''0x9''
           @ nl @ nl @ ''global f_file_size'' @ nl @ ''f_file_size: dd $-f_file'' @ nl,
         ncalls = 10, fails = {}\<rparr>)
   \<and> unat (3 :: 64 word) = length [7, 8, 9 :: byte]
   \<and> length [7, 8, 9 :: byte] < 2 ^ LENGTH(64)"
proof -
  have run: "convert (map Deliver [7, 8, 9]) \<lparr>written = [], ncalls = 0, fails = {}\<rparr>
       (lang_specs ! 1) ''f''
     = (0, 3 :: 64 word, [],
        \<lparr>written = ''global f_file'' @ nl @ ''f_file:'' @ nl
           @ nl @ ''db'' @ tab @ ''0x7,'' @ tab @ ''0x8,'' @ tab @ ''0x9''
           @ nl @ nl @ ''global f_file_size'' @ nl @ ''f_file_size: dd $-f_file'' @ nl,
         ncalls = 10, fails = {}\<rparr>)"
    by (simp add: convert_def fprintf_def lang_specs_def ELEMS_PER_LINE_def fmt_x_small
        hex_digit_def nl_def tab_def)
  from convert_count [OF run] obtain bs where
    m: "map Deliver [7, 8, 9] = map Deliver bs"
    and u: "length bs < 2 ^ LENGTH(64) \<longrightarrow> unat (3 :: 64 word) = length bs"
    by blast
  from m have "length bs = 3"
    by (metis length_map length_Cons list.size(3) numeral_3_eq_3)
  with u have "unat (3 :: 64 word) = length [7, 8, 9 :: byte]" by simp
  with run show ?thesis by simp
qed

text \<open>
  C7 as stated fails where \<^verbatim>\<open>size_t\<close> has 32 bits: an input of \<open>2 ^ 32\<close> bytes is
  converted in full, \<open>convert\<close> returns 0, and the count it reports is 0.
\<close>

theorem convert_count_counterexample:
  "convert (map Deliver (replicate (2 ^ 32) 0)) \<lparr>written = [], ncalls = 0, fails = {}\<rparr>
       (lang_specs ! 0) ''f''
     = (0, 0 :: 32 word, [],
        \<lparr>written = header (lang_specs ! 0) ''f''
           @ byte_lines (def (lang_specs ! 0)) 0 (replicate (2 ^ 32) 0)
           @ footer (lang_specs ! 0) ''f'',
         ncalls = 2 * 2 ^ 32 + 4, fails = {}\<rparr>)
   \<and> unat (0 :: 32 word) \<noteq> length (replicate (2 ^ 32) (0 :: byte))"
proof -
  have w: "4 \<le> LENGTH(32)" by simp
  have cl: "clear \<lparr>written = [], ncalls = 0, fails = {}\<rparr>
              (2 * length (replicate (2 ^ 32) (0 :: byte)) + 4)"
    by (simp add: clear_def)
  show ?thesis
    using convert_success [where 'w = 32, OF w cl, of "lang_specs ! 0" "''f''"]
    by simp
qed

lemma take_map_Deliver:
  "inp = map Deliver bs @ rest \<Longrightarrow> take (length bs) inp = map Deliver bs"
  by simp

text \<open>
  C9, as amended. On a platform whose \<^verbatim>\<open>size_t\<close> has at least 16 bits, when
  \<open>convert\<close> returns \<open>-1\<close> or \<open>-2\<close>: the output holds a part of the header, then the
  literals of the first bytes \<open>bs\<close> of the input in full (\<open>byte_lines\<close>), then at most
  the separator written for the next byte or the first line of the footer, and nothing
  else; the count is the number of these bytes modulo \<open>2 ^ N\<close>, where \<open>N\<close> is the width
  of \<^verbatim>\<open>size_t\<close>, and so the number itself for every input of fewer than \<open>2 ^ N\<close>
  reads. A separator whose literal was refused is in the output and not in the count:
  the counter is incremented only after both writes of a byte.
\<close>

theorem convert_error_count:
  assumes w: "16 \<le> LENGTH('w::len)"
    and run: "convert inp out lang fname = (ret, c :: 'w word, inp', out')"
    and err: "ret \<noteq> 0"
  shows "\<exists>bs. take (length bs) inp = map Deliver bs
           \<and> unat c = length bs mod 2 ^ LENGTH('w)
           \<and> (length inp < 2 ^ LENGTH('w) \<longrightarrow> unat c = length bs)
           \<and> (\<exists>H T. written out' = written out @ H @ byte_lines (def lang) 0 bs @ T
                 \<and> (H = [] \<and> T = [] \<and> bs = []
                    \<or> H = export_data_line lang fname @ nl \<and> T = [] \<and> bs = []
                    \<or> H = header lang fname
                       \<and> (T = [] \<or> T = separator (def lang) (length bs)
                          \<or> T = nl @ nl @ export_size_line lang fname @ nl)))"
proof -
  from w have w4: "4 \<le> LENGTH('w)" by simp
  from convert_cases [OF w4 run] err obtain bs where
    c: "c = of_nat (length bs)" and
    alt: "(ret = - 1 \<and> inp = map Deliver bs @ Fail # inp' \<and>
            out' = out\<lparr>written := written out @ header lang fname @ byte_lines (def lang) 0 bs,
                  ncalls := ncalls out + (2 * length bs + 2)\<rparr>)
     \<or> (ret = - 2 \<and>
      (\<exists>m T. out' = out\<lparr>written := written out @ T, ncalls := ncalls out + (m + 1)\<rparr> \<and>
         ((T = [] \<and> bs = [] \<and> inp' = inp)
          \<or> (T = export_data_line lang fname @ nl \<and> bs = [] \<and> inp' = inp)
          \<or> (T = header lang fname @ byte_lines (def lang) 0 bs \<and>
              (\<exists>b. inp = map Deliver bs @ Deliver b # inp'))
          \<or> (T = header lang fname @ byte_lines (def lang) 0 bs
                    @ separator (def lang) (length bs) \<and>
              (\<exists>b. inp = map Deliver bs @ Deliver b # inp'))
          \<or> (T = header lang fname @ byte_lines (def lang) 0 bs \<and>
              inp = map Deliver bs \<and> inp' = [])
          \<or> (T = header lang fname @ byte_lines (def lang) 0 bs
                    @ nl @ nl @ export_size_line lang fname @ nl \<and>
              inp = map Deliver bs \<and> inp' = []))))"
    by blast
  have u: "unat c = length bs mod 2 ^ LENGTH('w)"
    using c by (simp add: unat_of_nat)
  have "\<exists>rest. inp = map Deliver bs @ rest"
    using alt by (elim disjE conjE exE) simp_all
  then have tk: "take (length bs) inp = map Deliver bs"
    by (elim exE) (rule take_map_Deliver)
  have "length bs \<le> length inp"
    using arg_cong [OF tk, of length] by simp
  then have small: "length inp < 2 ^ LENGTH('w) \<longrightarrow> unat c = length bs"
    using u by simp
  have shape: "\<exists>H T. written out' = written out @ H @ byte_lines (def lang) 0 bs @ T
                 \<and> (H = [] \<and> T = [] \<and> bs = []
                    \<or> H = export_data_line lang fname @ nl \<and> T = [] \<and> bs = []
                    \<or> H = header lang fname
                       \<and> (T = [] \<or> T = separator (def lang) (length bs)
                          \<or> T = nl @ nl @ export_size_line lang fname @ nl))"
    using alt
  proof (elim disjE conjE exE)
    assume "out' = out\<lparr>written := written out @ header lang fname @ byte_lines (def lang) 0 bs,
                  ncalls := ncalls out + (2 * length bs + 2)\<rparr>"
    then show ?thesis
      by (intro exI [of _ "header lang fname"] exI [of _ "[]"]) simp
  next
    fix m T assume "out' = out\<lparr>written := written out @ T, ncalls := ncalls out + (m + 1)\<rparr>"
      "T = []" "bs = []"
    then show ?thesis
      by (intro exI [of _ "[]"]) simp
  next
    fix m T assume "out' = out\<lparr>written := written out @ T, ncalls := ncalls out + (m + 1)\<rparr>"
      "T = export_data_line lang fname @ nl" "bs = []"
    then show ?thesis
      by (intro exI [of _ "export_data_line lang fname @ nl"] exI [of _ "[]"]) simp
  next
    fix m T assume "out' = out\<lparr>written := written out @ T, ncalls := ncalls out + (m + 1)\<rparr>"
      "T = header lang fname @ byte_lines (def lang) 0 bs"
    then show ?thesis
      by (intro exI [of _ "header lang fname"] exI [of _ "[]"]) simp
  next
    fix m T assume "out' = out\<lparr>written := written out @ T, ncalls := ncalls out + (m + 1)\<rparr>"
      "T = header lang fname @ byte_lines (def lang) 0 bs @ separator (def lang) (length bs)"
    then show ?thesis
      by (intro exI [of _ "header lang fname"] exI [of _ "separator (def lang) (length bs)"]) simp
  next
    fix m T assume "out' = out\<lparr>written := written out @ T, ncalls := ncalls out + (m + 1)\<rparr>"
      "T = header lang fname @ byte_lines (def lang) 0 bs"
    then show ?thesis
      by (intro exI [of _ "header lang fname"] exI [of _ "[]"]) simp
  next
    fix m T assume "out' = out\<lparr>written := written out @ T, ncalls := ncalls out + (m + 1)\<rparr>"
      "T = header lang fname @ byte_lines (def lang) 0 bs
             @ nl @ nl @ export_size_line lang fname @ nl"
    then show ?thesis
      by (intro exI [of _ "header lang fname"]
          exI [of _ "nl @ nl @ export_size_line lang fname @ nl"]) simp
  qed
  show ?thesis
    using tk u small shape by (intro exI [of _ bs]) simp
qed

theorem convert_error_count_witness:
  "16 \<le> LENGTH(64)
   \<and> convert [Deliver 1, Deliver 2, Deliver 3] \<lparr>written = [], ncalls = 0, fails = {5}\<rparr>
       (lang_specs ! 0) ''f''
     = (- 2, 1 :: 64 word, [Deliver 3],
        \<lparr>written = ''[GLOBAL f_file]'' @ nl @ ''f_file:'' @ nl
           @ nl @ ''db'' @ tab @ ''0x1'' @ '','' @ tab,
         ncalls = 6, fails = {5}\<rparr>)
   \<and> (\<exists>bs. take (length bs) [Deliver 1, Deliver 2, Deliver 3] = map Deliver bs
          \<and> unat (1 :: 64 word) = length bs)"
proof -
  have w: "16 \<le> LENGTH(64)" by simp
  have run: "convert [Deliver 1, Deliver 2, Deliver 3] \<lparr>written = [], ncalls = 0, fails = {5}\<rparr>
       (lang_specs ! 0) ''f''
     = (- 2, 1 :: 64 word, [Deliver 3],
        \<lparr>written = ''[GLOBAL f_file]'' @ nl @ ''f_file:'' @ nl
           @ nl @ ''db'' @ tab @ ''0x1'' @ '','' @ tab,
         ncalls = 6, fails = {5}\<rparr>)"
    by (simp add: convert_def fprintf_def lang_specs_def ELEMS_PER_LINE_def fmt_x_small
        hex_digit_def nl_def tab_def)
  have err: "(- 2 :: int) \<noteq> 0" by simp
  from convert_error_count [OF w run err] obtain bs where
    "take (length bs) [Deliver 1, Deliver 2, Deliver 3] = map Deliver bs"
    and "length [Deliver 1, Deliver 2, Deliver 3] < 2 ^ LENGTH(64)
           \<longrightarrow> unat (1 :: 64 word) = length bs"
    by blast
  then have "\<exists>bs. take (length bs) [Deliver 1, Deliver 2, Deliver 3] = map Deliver bs
          \<and> unat (1 :: 64 word) = length bs"
    by (intro exI [of _ bs]) simp
  with w run show ?thesis by blast
qed

text \<open>
  C9 as stated fails where \<^verbatim>\<open>size_t\<close> has 32 bits: after \<open>2 ^ 32\<close> bytes whose
  literals are all in the output, a read error makes \<open>convert\<close> return \<open>-1\<close> with
  count 0.
\<close>

theorem convert_error_count_counterexample:
  "convert (map Deliver (replicate (2 ^ 32) 0) @ [Fail])
       \<lparr>written = [], ncalls = 0, fails = {}\<rparr> (lang_specs ! 0) ''f''
     = (- 1, 0 :: 32 word, [],
        \<lparr>written = header (lang_specs ! 0) ''f''
           @ byte_lines (def (lang_specs ! 0)) 0 (replicate (2 ^ 32) 0),
         ncalls = 2 * 2 ^ 32 + 2, fails = {}\<rparr>)
   \<and> unat (0 :: 32 word) \<noteq> length (replicate (2 ^ 32) (0 :: byte))"
proof -
  have w: "4 \<le> LENGTH(32)" by simp
  have cl: "clear \<lparr>written = [], ncalls = 0, fails = {}\<rparr>
              (2 * length (replicate (2 ^ 32) (0 :: byte)) + 2)"
    by (simp add: clear_def)
  show ?thesis
    using convert_read_failure [where 'w = 32, OF w cl, of "[]" "lang_specs ! 0" "''f''"]
    by simp
qed

subsection \<open>The return value\<close>

text \<open>
  C6. On a platform whose \<^verbatim>\<open>size_t\<close> has at least 16 bits, the value that
  \<open>convert\<close> returns is 0, \<open>-1\<close> or \<open>-2\<close>. It is 0 only when every read up to
  the end of the input delivered a byte and the whole fragment (header, byte lines,
  footer) is in the output. It is \<open>-1\<close> only when a read failed: the input left is what
  follows that read, the output ends with the literals of the bytes read before it, without
  the footer, and no write was made after it. It is \<open>-2\<close> only when a write was refused,
  and that write is the last call made on the output: every call before it succeeded and
  none follows. Every other return value means that each write made succeeded. Conversely,
  an input that ends after its bytes gives 0 when the writes succeed, and an input with a
  read error after its bytes gives \<open>-1\<close> when the writes before it succeed.
\<close>

theorem convert_return_codes:
  assumes w: "16 \<le> LENGTH('w::len)"
    and run: "convert inp out lang fname = (ret, c :: 'w word, inp', out')"
  shows "(ret = 0 \<or> ret = - 1 \<or> ret = - 2)
    \<and> (ret = 0 \<longrightarrow>
         (\<exists>bs. inp = map Deliver bs \<and> inp' = []
            \<and> written out' = written out @ header lang fname
                  @ byte_lines (def lang) 0 bs @ footer lang fname))
    \<and> (ret = - 1 \<longrightarrow>
         (\<exists>bs. inp = map Deliver bs @ Fail # inp'
            \<and> written out' = written out @ header lang fname @ byte_lines (def lang) 0 bs
            \<and> ncalls out' = ncalls out + (2 * length bs + 2)))
    \<and> (ret = - 2 \<longrightarrow>
         (\<exists>m. clear out m \<and> ncalls out + m \<in> fails out
            \<and> ncalls out' = ncalls out + (m + 1)))
    \<and> (ret \<noteq> - 2 \<longrightarrow> clear out (ncalls out' - ncalls out))
    \<and> (\<forall>bs. inp = map Deliver bs \<and> clear out (2 * length bs + 4) \<longrightarrow> ret = 0)
    \<and> (\<forall>bs rest. inp = map Deliver bs @ Fail # rest \<and> clear out (2 * length bs + 2)
           \<longrightarrow> ret = - 1 \<and> inp' = rest)
    \<and> fails out' = fails out"
proof -
  from w have w4: "4 \<le> LENGTH('w)" by simp
  have fwd0: "\<forall>bs. inp = map Deliver bs \<and> clear out (2 * length bs + 4) \<longrightarrow> ret = 0"
  proof (intro allI impI, elim conjE)
    fix bs assume "inp = map Deliver bs" "clear out (2 * length bs + 4)"
    with convert_success [OF w4, of out bs lang fname] run show "ret = 0" by simp
  qed
  have fwd1: "\<forall>bs rest. inp = map Deliver bs @ Fail # rest \<and> clear out (2 * length bs + 2)
           \<longrightarrow> ret = - 1 \<and> inp' = rest"
  proof (intro allI impI, elim conjE)
    fix bs rest assume "inp = map Deliver bs @ Fail # rest" "clear out (2 * length bs + 2)"
    with convert_read_failure [OF w4, of out bs rest lang fname] run
    show "ret = - 1 \<and> inp' = rest" by simp
  qed
  from convert_cases [OF w4 run] obtain bs where
    alt: "(ret = 0 \<and> inp = map Deliver bs \<and> inp' = [] \<and> clear out (2 * length bs + 4) \<and>
      out' = out\<lparr>written := written out @ header lang fname
                     @ byte_lines (def lang) 0 bs @ footer lang fname,
                  ncalls := ncalls out + (2 * length bs + 4)\<rparr>)
     \<or> (ret = - 1 \<and> inp = map Deliver bs @ Fail # inp' \<and> clear out (2 * length bs + 2) \<and>
      out' = out\<lparr>written := written out @ header lang fname @ byte_lines (def lang) 0 bs,
                  ncalls := ncalls out + (2 * length bs + 2)\<rparr>)
     \<or> (ret = - 2 \<and>
      (\<exists>m T. clear out m \<and> ncalls out + m \<in> fails out \<and>
         out' = out\<lparr>written := written out @ T, ncalls := ncalls out + (m + 1)\<rparr>))"
    by blast
  from alt consider
    (ok) "ret = 0" "inp = map Deliver bs" "inp' = []" "clear out (2 * length bs + 4)"
      "out' = out\<lparr>written := written out @ header lang fname
                     @ byte_lines (def lang) 0 bs @ footer lang fname,
                  ncalls := ncalls out + (2 * length bs + 4)\<rparr>"
    | (rd) "ret = - 1" "inp = map Deliver bs @ Fail # inp'" "clear out (2 * length bs + 2)"
      "out' = out\<lparr>written := written out @ header lang fname @ byte_lines (def lang) 0 bs,
                  ncalls := ncalls out + (2 * length bs + 2)\<rparr>"
    | (wr) m T where "ret = - 2" "clear out m" "ncalls out + m \<in> fails out"
      "out' = out\<lparr>written := written out @ T, ncalls := ncalls out + (m + 1)\<rparr>"
    by blast
  then have main: "(ret = 0 \<or> ret = - 1 \<or> ret = - 2)
    \<and> (ret = 0 \<longrightarrow>
         (\<exists>bs. inp = map Deliver bs \<and> inp' = []
            \<and> written out' = written out @ header lang fname
                  @ byte_lines (def lang) 0 bs @ footer lang fname))
    \<and> (ret = - 1 \<longrightarrow>
         (\<exists>bs. inp = map Deliver bs @ Fail # inp'
            \<and> written out' = written out @ header lang fname @ byte_lines (def lang) 0 bs
            \<and> ncalls out' = ncalls out + (2 * length bs + 2)))
    \<and> (ret = - 2 \<longrightarrow>
         (\<exists>m. clear out m \<and> ncalls out + m \<in> fails out
            \<and> ncalls out' = ncalls out + (m + 1)))
    \<and> (ret \<noteq> - 2 \<longrightarrow> clear out (ncalls out' - ncalls out))
    \<and> fails out' = fails out"
  proof cases
    case ok
    have "\<exists>bs. inp = map Deliver bs \<and> inp' = []
            \<and> written out' = written out @ header lang fname
                  @ byte_lines (def lang) 0 bs @ footer lang fname"
      using ok by (intro exI [of _ bs]) simp
    moreover have "clear out (ncalls out' - ncalls out)" using ok by simp
    moreover have "fails out' = fails out" using ok by simp
    ultimately show ?thesis using ok(1) by simp
  next
    case rd
    have "\<exists>bs. inp = map Deliver bs @ Fail # inp'
            \<and> written out' = written out @ header lang fname @ byte_lines (def lang) 0 bs
            \<and> ncalls out' = ncalls out + (2 * length bs + 2)"
      using rd by (intro exI [of _ bs]) simp
    moreover have "clear out (ncalls out' - ncalls out)" using rd by simp
    moreover have "fails out' = fails out" using rd by simp
    ultimately show ?thesis using rd(1) by simp
  next
    case wr
    have "\<exists>m. clear out m \<and> ncalls out + m \<in> fails out
            \<and> ncalls out' = ncalls out + (m + 1)"
      using wr by (intro exI [of _ m]) simp
    moreover have "fails out' = fails out" using wr by simp
    ultimately show ?thesis using wr(1) by simp
  qed
  show ?thesis
    using main fwd0 fwd1 by blast
qed

theorem convert_return_codes_witness:
  "16 \<le> LENGTH(64)
   \<and> convert [] \<lparr>written = [], ncalls = 0, fails = {}\<rparr> (lang_specs ! 0) ''f''
       = (0, 0 :: 64 word, [],
          \<lparr>written = ''[GLOBAL f_file]'' @ nl @ ''f_file:'' @ nl @ nl @ nl
             @ ''[GLOBAL f_file_size]'' @ nl @ ''f_file_size: dd $-f_file'' @ nl,
           ncalls = 4, fails = {}\<rparr>)
   \<and> (\<exists>bs. [] = map Deliver bs
          \<and> ''[GLOBAL f_file]'' @ nl @ ''f_file:'' @ nl @ nl @ nl
             @ ''[GLOBAL f_file_size]'' @ nl @ ''f_file_size: dd $-f_file'' @ nl
            = [] @ header (lang_specs ! 0) ''f'' @ byte_lines (def (lang_specs ! 0)) 0 bs
                @ footer (lang_specs ! 0) ''f'')
   \<and> convert [Deliver 1, Fail, Deliver 2] \<lparr>written = [], ncalls = 0, fails = {}\<rparr>
         (lang_specs ! 0) ''f''
       = (- 1, 1 :: 64 word, [Deliver 2],
          \<lparr>written = ''[GLOBAL f_file]'' @ nl @ ''f_file:'' @ nl @ nl @ ''db'' @ tab @ ''0x1'',
           ncalls = 4, fails = {}\<rparr>)
   \<and> (\<exists>bs. [Deliver 1, Fail, Deliver 2] = map Deliver bs @ Fail # [Deliver 2]
          \<and> (4 :: nat) = 0 + (2 * length bs + 2))
   \<and> convert [Deliver 1, Deliver 2] \<lparr>written = [], ncalls = 0, fails = {2}\<rparr>
         (lang_specs ! 0) ''f''
       = (- 2, 0 :: 64 word, [Deliver 2],
          \<lparr>written = ''[GLOBAL f_file]'' @ nl @ ''f_file:'' @ nl, ncalls = 3, fails = {2}\<rparr>)
   \<and> (\<exists>m. clear \<lparr>written = [], ncalls = 0, fails = {2}\<rparr> m \<and> 0 + m \<in> {2 :: nat}
          \<and> (3 :: nat) = 0 + (m + 1))"
proof -
  have w: "16 \<le> LENGTH(64)" by simp
  have a: "convert [] \<lparr>written = [], ncalls = 0, fails = {}\<rparr> (lang_specs ! 0) ''f''
       = (0, 0 :: 64 word, [],
          \<lparr>written = ''[GLOBAL f_file]'' @ nl @ ''f_file:'' @ nl @ nl @ nl
             @ ''[GLOBAL f_file_size]'' @ nl @ ''f_file_size: dd $-f_file'' @ nl,
           ncalls = 4, fails = {}\<rparr>)"
    by (simp add: convert_def fprintf_def lang_specs_def nl_def)
  have b: "convert [Deliver 1, Fail, Deliver 2] \<lparr>written = [], ncalls = 0, fails = {}\<rparr>
         (lang_specs ! 0) ''f''
       = (- 1, 1 :: 64 word, [Deliver 2],
          \<lparr>written = ''[GLOBAL f_file]'' @ nl @ ''f_file:'' @ nl @ nl @ ''db'' @ tab @ ''0x1'',
           ncalls = 4, fails = {}\<rparr>)"
    by (simp add: convert_def fprintf_def lang_specs_def ELEMS_PER_LINE_def fmt_x_small
        hex_digit_def nl_def tab_def)
  have c: "convert [Deliver 1, Deliver 2] \<lparr>written = [], ncalls = 0, fails = {2}\<rparr>
         (lang_specs ! 0) ''f''
       = (- 2, 0 :: 64 word, [Deliver 2],
          \<lparr>written = ''[GLOBAL f_file]'' @ nl @ ''f_file:'' @ nl, ncalls = 3, fails = {2}\<rparr>)"
    by (simp add: convert_def fprintf_def lang_specs_def ELEMS_PER_LINE_def nl_def tab_def)
  note ra = convert_return_codes [OF w a]
  from ra [THEN conjunct2, THEN conjunct1, rule_format, OF refl] obtain bs where
    a1: "[] = map Deliver bs"
    and a2: "written \<lparr>written = ''[GLOBAL f_file]'' @ nl @ ''f_file:'' @ nl @ nl @ nl
             @ ''[GLOBAL f_file_size]'' @ nl @ ''f_file_size: dd $-f_file'' @ nl,
           ncalls = 4, fails = {}\<rparr>
        = written \<lparr>written = [], ncalls = 0, fails = {}\<rparr> @ header (lang_specs ! 0) ''f''
            @ byte_lines (def (lang_specs ! 0)) 0 bs @ footer (lang_specs ! 0) ''f''"
    by blast
  have a': "\<exists>bs. [] = map Deliver bs
          \<and> ''[GLOBAL f_file]'' @ nl @ ''f_file:'' @ nl @ nl @ nl
             @ ''[GLOBAL f_file_size]'' @ nl @ ''f_file_size: dd $-f_file'' @ nl
            = [] @ header (lang_specs ! 0) ''f'' @ byte_lines (def (lang_specs ! 0)) 0 bs
                @ footer (lang_specs ! 0) ''f''"
    apply (rule exI [of _ bs])
    apply (rule conjI)
     apply (rule a1)
    using a2 apply (simp only: out_file.simps)
    done
  note rb = convert_return_codes [OF w b]
  from rb [THEN conjunct2, THEN conjunct2, THEN conjunct1, rule_format, OF refl] obtain bs' where
    b1: "[Deliver 1, Fail, Deliver 2] = map Deliver bs' @ Fail # [Deliver 2]"
    and b2: "ncalls \<lparr>written = ''[GLOBAL f_file]'' @ nl @ ''f_file:'' @ nl @ nl @ ''db'' @ tab @ ''0x1'',
           ncalls = 4, fails = {}\<rparr>
        = ncalls \<lparr>written = [], ncalls = 0, fails = {}\<rparr> + (2 * length bs' + 2)"
    by blast
  have b': "\<exists>bs. [Deliver 1, Fail, Deliver 2] = map Deliver bs @ Fail # [Deliver 2]
          \<and> (4 :: nat) = 0 + (2 * length bs + 2)"
    apply (rule exI [of _ bs'])
    apply (rule conjI)
     apply (rule b1)
    using b2 apply (simp only: out_file.simps)
    done
  note rc = convert_return_codes [OF w c]
  from rc [THEN conjunct2, THEN conjunct2, THEN conjunct2, THEN conjunct1, rule_format, OF refl]
  obtain m where
    c1: "clear \<lparr>written = [], ncalls = 0, fails = {2}\<rparr> m"
    and c2: "ncalls \<lparr>written = [], ncalls = 0, fails = {2}\<rparr> + m
              \<in> fails \<lparr>written = [], ncalls = 0, fails = {2}\<rparr>"
    and c3: "ncalls \<lparr>written = ''[GLOBAL f_file]'' @ nl @ ''f_file:'' @ nl, ncalls = 3, fails = {2}\<rparr>
        = ncalls \<lparr>written = [], ncalls = 0, fails = {2}\<rparr> + (m + 1)"
    by blast
  have c': "\<exists>m. clear \<lparr>written = [], ncalls = 0, fails = {2}\<rparr> m \<and> 0 + m \<in> {2 :: nat}
          \<and> (3 :: nat) = 0 + (m + 1)"
    apply (rule exI [of _ m])
    apply (intro conjI)
      apply (rule c1)
    using c2 apply (simp only: out_file.simps)
    using c3 apply (simp only: out_file.simps)
    done
  from w a a' b b' c c' show ?thesis by blast
qed

subsection \<open>main: the identifier, the files and the cleanup\<close>

lemma str_repl_char_map:
  "fst (str_repl_char s old new) = map (\<lambda>c. if c = old then new else c) s"
  by (induction s) (auto split: prod.splits)

lemma repl_in_filename_nth:
  assumes "IN_FILENAME_IDX < length argv"
  shows "repl_in_filename argv ! IN_FILENAME_IDX =
         map (\<lambda>c. if c = CHR ''.'' \<or> c = CHR ''-'' then CHR ''_'' else c)
           (argv ! IN_FILENAME_IDX)"
  using assms by (simp add: repl_in_filename_def Let_def str_repl_char_map)

lemma spec_base_name_plain: "CHR ''/'' \<notin> set path \<Longrightarrow> spec_base_name path = path"
proof -
  assume "CHR ''/'' \<notin> set path"
  then have "takeWhile (\<lambda>c. c \<noteq> CHR ''/'') (rev path) = rev path"
    by (intro takeWhile_eq_all_conv [THEN iffD2]) auto
  then show ?thesis by (simp only: spec_base_name_def rev_rev_ident)
qed

lemma file_events_append: "file_events (a @ b) = file_events a @ file_events b"
  by (simp add: file_events_def)

lemma final_out_cleanup_panic: "final_out (cleanup_panic i out lg outf msg) = outf"
  by (simp add: cleanup_panic_def panic_def split: option.splits)

lemma file_events_cleanup_panic:
  "file_events (log (cleanup_panic i out lg outf msg)) = file_events lg"
  by (auto simp: cleanup_panic_def panic_def cleanup_def fclose_def file_events_def
      split: option.splits if_splits)

lemma file_events_cleanup:
  "cleanup i out lg = Some lg' \<Longrightarrow> file_events lg' = file_events lg"
  by (auto simp: cleanup_def fclose_def file_events_def split: option.splits if_splits)

lemma main_final_out:
  assumes len: "length argv = 3 \<or> length argv = 4"
    and lang: "lookup_lang_spec (argv ! ARCH_NAME_IDX) = Some lang"
    and inp: "fopen_r w (argv ! IN_FILENAME_IDX) = Some inp"
    and out: "(if length argv = 4 then fopen_w w (argv ! OUT_FILENAME_IDX)
               else Some (stdout_stream w)) = Some outf"
  shows "final_out (main w argv :: 'w::len word run) =
         Some (snd (snd (snd (convert inp outf lang (repl_in_filename argv ! IN_FILENAME_IDX)
                                :: int \<times> 'w word \<times> read_event list \<times> out_file))))"
proof -
  obtain ret c inp' outf' where
    cv: "convert inp outf lang (repl_in_filename argv ! IN_FILENAME_IDX)
         = (ret, c :: 'w word, inp', outf')"
    by (rule prod_cases4)
  from len show ?thesis
  proof
    assume l: "length argv = 3"
    with out have o: "outf = stdout_stream w" by simp
    show ?thesis
      using l lang inp cv [unfolded o]
      by (simp add: main_def Let_def final_out_cleanup_panic o split: option.splits)
  next
    assume l: "length argv = 4"
    with out have o: "fopen_w w (argv ! OUT_FILENAME_IDX) = Some outf" by simp
    show ?thesis
      using l lang inp o cv
      by (simp add: main_def Let_def final_out_cleanup_panic split: option.splits)
  qed
qed

lemma main_file_events:
  assumes len: "length argv = 3 \<or> length argv = 4"
    and lang: "lookup_lang_spec (argv ! ARCH_NAME_IDX) = Some lang"
  shows "file_events (log (main w argv :: 'w::len word run)) =
     (case fopen_r w (argv ! IN_FILENAME_IDX) of
        None \<Rightarrow> [Fopen (argv ! IN_FILENAME_IDX) ''r'' NULL]
      | Some inp \<Rightarrow> Fopen (argv ! IN_FILENAME_IDX) ''r'' IN_FILE #
          (if length argv = 4 then
             (case fopen_w w (argv ! OUT_FILENAME_IDX) of
                None \<Rightarrow> [Fopen (argv ! OUT_FILENAME_IDX) ''w'' NULL]
              | Some f \<Rightarrow>
                  [Fopen (argv ! OUT_FILENAME_IDX) ''w'' OUT_FILE,
                   Repl IN_FILENAME_IDX (CHR ''.'') (CHR ''_''),
                   Repl IN_FILENAME_IDX (CHR ''-'') (CHR ''_'')])
           else [Repl IN_FILENAME_IDX (CHR ''.'') (CHR ''_''),
                 Repl IN_FILENAME_IDX (CHR ''-'') (CHR ''_'')]))"
proof (cases "fopen_r w (argv ! IN_FILENAME_IDX)")
  case None
  with len lang show ?thesis
    by (auto simp add: main_def Let_def panic_def file_events_def)
next
  case (Some inp)
  from len show ?thesis
  proof
    assume l: "length argv = 3"
    obtain ret c inp' outf' where
      cv: "convert inp (stdout_stream w) lang (repl_in_filename argv ! IN_FILENAME_IDX)
         = (ret, c :: 'w word, inp', outf')"
      by (rule prod_cases4)
    show ?thesis
      using l lang Some cv
      by (auto simp add: main_def Let_def file_events_cleanup_panic file_events_append
          dest!: file_events_cleanup split: option.splits)
         (simp_all add: file_events_def)
  next
    assume l: "length argv = 4"
    show ?thesis
    proof (cases "fopen_w w (argv ! OUT_FILENAME_IDX)")
      case None
      with l lang Some show ?thesis
        by (simp add: main_def Let_def file_events_cleanup_panic) (simp add: file_events_def)
    next
      case (Some outf)
      obtain ret c inp' outf' where
        cv: "convert inp outf lang (repl_in_filename argv ! IN_FILENAME_IDX)
         = (ret, c :: 'w word, inp', outf')"
        by (rule prod_cases4)
      show ?thesis
        using l lang \<open>fopen_r w (argv ! IN_FILENAME_IDX) = Some inp\<close> Some cv
        by (auto simp add: main_def Let_def file_events_cleanup_panic file_events_append
            dest!: file_events_cleanup split: option.splits)
          (simp_all add: file_events_def)
    qed
  qed
qed

lemma status_panic: "status (panic lg outf msg) = Exit 1"
  by (simp add: panic_def)

lemma status_cleanup_panic:
  "status (cleanup_panic i out lg outf msg) =
   (if out = NULL then Undefined_behaviour else Exit 1)"
  by (cases out; cases i) (simp_all add: cleanup_panic_def cleanup_def fclose_def panic_def)

lemma main_undefined_iff:
  "(status (main w argv :: 'w::len word run) = Undefined_behaviour) =
   (argv = [] \<or>
    length argv = 4 \<and> lookup_lang_spec (argv ! ARCH_NAME_IDX) \<noteq> None
      \<and> fopen_r w (argv ! IN_FILENAME_IDX) \<noteq> None
      \<and> fopen_w w (argv ! OUT_FILENAME_IDX) = None)"
proof (cases "length argv < 3 \<or> length argv > 4")
  case True
  then show ?thesis by (auto simp add: main_def Let_def status_panic)
next
  case False
  then have len: "length argv = 3 \<or> length argv = 4" by arith
  then have ne: "argv \<noteq> []" by auto
  show ?thesis
  proof (cases "lookup_lang_spec (argv ! ARCH_NAME_IDX)")
    case None
    with False ne show ?thesis by (simp add: main_def Let_def status_panic)
  next
    case (Some lang)
    note lang = this
    show ?thesis
    proof (cases "fopen_r w (argv ! IN_FILENAME_IDX)")
      case None
      with False ne lang show ?thesis by (simp add: main_def Let_def status_panic)
    next
      case (Some inp)
      note inp = this
      from len show ?thesis
      proof
        assume l: "length argv = 3"
        obtain ret c inp' outf' where
          cv: "convert inp (stdout_stream w) lang (repl_in_filename argv ! IN_FILENAME_IDX)
            = (ret, c :: 'w word, inp', outf')"
          by (rule prod_cases4)
        show ?thesis
          using l lang inp cv ne
          by (simp add: main_def Let_def status_cleanup_panic cleanup_def fclose_def)
      next
        assume l: "length argv = 4"
        show ?thesis
        proof (cases "fopen_w w (argv ! OUT_FILENAME_IDX)")
          case None
          with l lang inp ne show ?thesis
            by (simp add: main_def Let_def status_cleanup_panic)
        next
          case (Some outf)
          obtain ret c inp' outf' where
            cv: "convert inp outf lang (repl_in_filename argv ! IN_FILENAME_IDX)
              = (ret, c :: 'w word, inp', outf')"
            by (rule prod_cases4)
          show ?thesis
            using l lang inp Some cv ne
            by (simp add: main_def Let_def status_cleanup_panic cleanup_def fclose_def)
        qed
      qed
    qed
  qed
qed

text \<open>
  C5, as amended. In a run with a known dialect, an input that opens and an output (the
  given file, or \<^verbatim>\<open>stdout\<close>), the output is what \<open>convert\<close> writes with the
  identifier obtained from the whole input file argument, as it was given, by replacing
  every \<^verbatim>\<open>.\<close> and every \<^verbatim>\<open>-\<close> by \<^verbatim>\<open>_\<close>. The source takes no base name: a
  directory part stays in the identifier. For an argument without \<^verbatim>\<open>/\<close> this is the
  identifier of the specification; \<^verbatim>\<open>login-screen.bmp\<close> gives
  \<^verbatim>\<open>login_screen_bmp\<close>, the data label \<^verbatim>\<open>login_screen_bmp_file\<close> and the size
  label \<^verbatim>\<open>login_screen_bmp_file_size\<close>.
\<close>

theorem identifier_of_filename:
  assumes len: "length argv = 3 \<or> length argv = 4"
    and lang: "lookup_lang_spec (argv ! ARCH_NAME_IDX) = Some lang"
    and inp: "fopen_r w (argv ! IN_FILENAME_IDX) = Some inp"
    and out: "(if length argv = 4 then fopen_w w (argv ! OUT_FILENAME_IDX)
               else Some (stdout_stream w)) = Some outf"
  shows "final_out (main w argv :: 'w::len word run) =
           Some (snd (snd (snd (convert inp outf lang
             (map (\<lambda>c. if c = CHR ''.'' \<or> c = CHR ''-'' then CHR ''_'' else c)
                (argv ! IN_FILENAME_IDX))
             :: int \<times> 'w word \<times> read_event list \<times> out_file))))
         \<and> (CHR ''/'' \<notin> set (argv ! IN_FILENAME_IDX) \<longrightarrow>
              map (\<lambda>c. if c = CHR ''.'' \<or> c = CHR ''-'' then CHR ''_'' else c)
                (argv ! IN_FILENAME_IDX)
              = spec_identifier (argv ! IN_FILENAME_IDX))
         \<and> map (\<lambda>c. if c = CHR ''.'' \<or> c = CHR ''-'' then CHR ''_'' else c)
               ''login-screen.bmp'' = ''login_screen_bmp''
         \<and> data_label_line ''login_screen_bmp'' = ''login_screen_bmp_file:''
         \<and> size_label_line lang ''login_screen_bmp''
             = ''login_screen_bmp_file_size: '' @ diff lang @ ''login_screen_bmp_file''"
proof -
  from len have "IN_FILENAME_IDX < length argv"
    by (auto simp: IN_FILENAME_IDX_def)
  from main_final_out [OF len lang inp out, where 'w = 'w] repl_in_filename_nth [OF this]
  have a: "final_out (main w argv :: 'w word run) =
           Some (snd (snd (snd (convert inp outf lang
             (map (\<lambda>c. if c = CHR ''.'' \<or> c = CHR ''-'' then CHR ''_'' else c)
                (argv ! IN_FILENAME_IDX))
             :: int \<times> 'w word \<times> read_event list \<times> out_file))))"
    by simp
  have b: "CHR ''/'' \<notin> set (argv ! IN_FILENAME_IDX) \<longrightarrow>
              map (\<lambda>c. if c = CHR ''.'' \<or> c = CHR ''-'' then CHR ''_'' else c)
                (argv ! IN_FILENAME_IDX)
              = spec_identifier (argv ! IN_FILENAME_IDX)"
    by (simp add: spec_identifier_def spec_base_name_plain)
  show ?thesis
    using a b by (simp add: data_label_line_def size_label_line_def)
qed

theorem identifier_of_filename_witness:
  "final_out (main \<lparr>in_files = [(''login-screen.bmp'', [])], out_files = [], stdout_fails = {}\<rparr>
               [''btoa'', ''nasm'', ''login-screen.bmp''] :: 64 word run)
     = Some \<lparr>written = ''[GLOBAL login_screen_bmp_file]'' @ nl @ ''login_screen_bmp_file:'' @ nl
               @ nl @ nl @ ''[GLOBAL login_screen_bmp_file_size]'' @ nl
               @ ''login_screen_bmp_file_size: dd $-login_screen_bmp_file'' @ nl,
             ncalls = 4, fails = {}\<rparr>
   \<and> spec_identifier ''login-screen.bmp'' = ''login_screen_bmp''"
proof -
  let ?w = "\<lparr>in_files = [(''login-screen.bmp'', [])], out_files = [], stdout_fails = {}\<rparr>"
  let ?argv = "[''btoa'', ''nasm'', ''login-screen.bmp'']"
  have len: "length ?argv = 3 \<or> length ?argv = 4" by simp
  have lang: "lookup_lang_spec (?argv ! ARCH_NAME_IDX) = Some (lang_specs ! 0)"
    by (simp add: lookup_lang_spec_def lang_specs_def ARCH_NAME_IDX_def)
  have inp: "fopen_r ?w (?argv ! IN_FILENAME_IDX) = Some []"
    by (simp add: fopen_r_def IN_FILENAME_IDX_def)
  have out: "(if length ?argv = 4 then fopen_w ?w (?argv ! OUT_FILENAME_IDX)
               else Some (stdout_stream ?w)) = Some \<lparr>written = [], ncalls = 0, fails = {}\<rparr>"
    by (simp add: stdout_stream_def)
  have sl: "CHR ''/'' \<notin> set (?argv ! IN_FILENAME_IDX)"
    by (simp add: IN_FILENAME_IDX_def)
  note t = identifier_of_filename [where 'w = 64, OF len lang inp out]
  from t [THEN conjunct2, THEN conjunct1, rule_format, OF sl]
  have s: "spec_identifier ''login-screen.bmp'' = ''login_screen_bmp''"
    by (simp add: IN_FILENAME_IDX_def)
  from t [THEN conjunct1]
  have f: "final_out (main ?w ?argv :: 64 word run)
     = Some \<lparr>written = ''[GLOBAL login_screen_bmp_file]'' @ nl @ ''login_screen_bmp_file:'' @ nl
               @ nl @ nl @ ''[GLOBAL login_screen_bmp_file_size]'' @ nl
               @ ''login_screen_bmp_file_size: dd $-login_screen_bmp_file'' @ nl,
             ncalls = 4, fails = {}\<rparr>"
    by (simp add: IN_FILENAME_IDX_def convert_def fprintf_def lang_specs_def nl_def)
  from f s show ?thesis by simp
qed

text \<open>
  C5 as stated fails for an argument with a directory part: for \<^verbatim>\<open>dir/a.b\<close> the base
  name gives \<^verbatim>\<open>a_b\<close>, and the labels the program writes are \<^verbatim>\<open>dir/a_b_file\<close>
  and \<^verbatim>\<open>dir/a_b_file_size\<close>.
\<close>

theorem identifier_of_filename_counterexample:
  "repl_in_filename [''btoa'', ''nasm'', ''dir/a.b''] ! IN_FILENAME_IDX = ''dir/a_b''
   \<and> spec_identifier ''dir/a.b'' = ''a_b''
   \<and> final_out (main \<lparr>in_files = [(''dir/a.b'', [])], out_files = [], stdout_fails = {}\<rparr>
               [''btoa'', ''nasm'', ''dir/a.b''] :: 64 word run)
     = Some \<lparr>written = ''[GLOBAL dir/a_b_file]'' @ nl @ ''dir/a_b_file:'' @ nl
               @ nl @ nl @ ''[GLOBAL dir/a_b_file_size]'' @ nl
               @ ''dir/a_b_file_size: dd $-dir/a_b_file'' @ nl,
             ncalls = 4, fails = {}\<rparr>"
  by (simp add: repl_in_filename_def IN_FILENAME_IDX_def spec_identifier_def spec_base_name_def
      main_def Let_def lookup_lang_spec_def lang_specs_def ARCH_NAME_IDX_def fopen_r_def
      stdout_stream_def convert_def fprintf_def cleanup_def fclose_def nl_def)

text \<open>
  C8. The claim fails on the path where the output file cannot be created: there
  \<open>out\<close> is the null pointer, \<open>cleanup\<close> compares it with \<^verbatim>\<open>stdout\<close> only and
  hands it to \<^verbatim>\<open>fclose\<close>, whose behaviour on a null pointer is undefined; the input
  stream, which is open, is not closed before that. (\<open>cleanup\<close> guards \<open>in\<close> against
  the null pointer, which it never is at a call, and not \<open>out\<close>.) On the paths after
  \<open>convert\<close>, \<open>cleanup\<close> closes the output file, unless it is \<^verbatim>\<open>stdout\<close>, and the
  input file. By \<open>main_undefined_iff\<close> this path (and a run without any argument) is the
  only one with undefined behaviour.
\<close>

theorem main_output_open_failure:
  "main \<lparr>in_files = [(''a.bin'', [Deliver 1])], out_files = [], stdout_fails = {}\<rparr>
     [''btoa'', ''nasm'', ''a.bin'', ''out.asm'']
   = (\<lparr>log = [Stderr (''Binary file to assembly language converter.'' @ nl @ nl),
             Fopen ''a.bin'' ''r'' IN_FILE, Fopen ''out.asm'' ''w'' NULL],
       status = Undefined_behaviour, final_out = None\<rparr> :: 64 word run)
   \<and> cleanup IN_FILE NULL ([] :: 64 word event list) = None
   \<and> cleanup IN_FILE OUT_FILE ([] :: 64 word event list) = Some [Fclose OUT_FILE, Fclose IN_FILE]
   \<and> cleanup IN_FILE STDOUT ([] :: 64 word event list) = Some [Fclose IN_FILE]"
  by (simp add: main_def Let_def lookup_lang_spec_def lang_specs_def ARCH_NAME_IDX_def
      IN_FILENAME_IDX_def OUT_FILENAME_IDX_def fopen_r_def fopen_w_def cleanup_panic_def
      cleanup_def fclose_def)

text \<open>
  C10. In every run with two or three arguments and a known dialect, the files are opened
  under the arguments as they were given: the first \<^verbatim>\<open>fopen\<close> takes
  \<open>argv ! IN_FILENAME_IDX\<close> and, when there is a third argument and the input opened,
  the second takes \<open>argv ! OUT_FILENAME_IDX\<close>. The two rewritings of the input file
  argument come after both calls, and only on the path that goes on to \<open>convert\<close>.
\<close>

theorem main_opens_original_names:
  assumes len: "length argv = 3 \<or> length argv = 4"
    and lang: "lookup_lang_spec (argv ! ARCH_NAME_IDX) = Some lang"
  shows "file_events (log (main w argv :: 'w::len word run)) =
     (case fopen_r w (argv ! IN_FILENAME_IDX) of
        None \<Rightarrow> [Fopen (argv ! IN_FILENAME_IDX) ''r'' NULL]
      | Some inp \<Rightarrow> Fopen (argv ! IN_FILENAME_IDX) ''r'' IN_FILE #
          (if length argv = 4 then
             (case fopen_w w (argv ! OUT_FILENAME_IDX) of
                None \<Rightarrow> [Fopen (argv ! OUT_FILENAME_IDX) ''w'' NULL]
              | Some f \<Rightarrow>
                  [Fopen (argv ! OUT_FILENAME_IDX) ''w'' OUT_FILE,
                   Repl IN_FILENAME_IDX (CHR ''.'') (CHR ''_''),
                   Repl IN_FILENAME_IDX (CHR ''-'') (CHR ''_'')])
           else [Repl IN_FILENAME_IDX (CHR ''.'') (CHR ''_''),
                 Repl IN_FILENAME_IDX (CHR ''-'') (CHR ''_'')]))"
  using len lang by (rule main_file_events)

theorem main_opens_original_names_witness:
  "file_events (log (main \<lparr>in_files = [(''a.b-c'', [])], out_files = [(''o-1.asm'', {})],
                           stdout_fails = {}\<rparr>
                      [''btoa'', ''as'', ''a.b-c'', ''o-1.asm''] :: 64 word run))
   = [Fopen ''a.b-c'' ''r'' IN_FILE, Fopen ''o-1.asm'' ''w'' OUT_FILE,
      Repl 2 (CHR ''.'') (CHR ''_''), Repl 2 (CHR ''-'') (CHR ''_'')]"
proof -
  let ?w = "\<lparr>in_files = [(''a.b-c'', [])], out_files = [(''o-1.asm'', {})], stdout_fails = {}\<rparr>"
  let ?argv = "[''btoa'', ''as'', ''a.b-c'', ''o-1.asm'']"
  have len: "length ?argv = 3 \<or> length ?argv = 4" by simp
  have lang: "lookup_lang_spec (?argv ! ARCH_NAME_IDX) = Some (lang_specs ! 2)"
    by (simp add: lookup_lang_spec_def lang_specs_def ARCH_NAME_IDX_def)
  show ?thesis
    using main_opens_original_names [where 'w = 64, OF len lang, of ?w]
    by (simp add: IN_FILENAME_IDX_def OUT_FILENAME_IDX_def fopen_r_def fopen_w_def)
qed

end
